theory Spec2Isabelle
  imports Complex_Main
begin

section \<open>JavaScript values as the data pipeline sees them\<close>

text \<open>
  Numbers. A JavaScript number is a double: a finite one is held as the real it
  stands for, and the three non-finite values are written out. Zero has no sign here.
\<close>

datatype jsnum = Fin real | PInf | NInf | NaN

subsection \<open>Rounding to a binary floating-point format\<close>

text \<open>
  Every arithmetic operation rounds its exact result to the nearest number of the
  format, to the one with an even significand when two are equally near. A format is
  its precision \<open>p\<close> in bits and its least and greatest exponent: 53, -1022 and 1023
  for a double, 24, -126 and 127 for a 32-bit float.
\<close>

text \<open>The number of binary digits of a natural number.\<close>

function bit_length :: "nat \<Rightarrow> nat" where
  "bit_length n = (if n = 0 then 0 else Suc (bit_length (n div 2)))"
  by pat_completeness auto
termination
  by (relation "measure id") auto

declare bit_length.simps [simp del]

definition pow2 :: "int \<Rightarrow> real" where
  "pow2 k = (if 0 \<le> k then 2 ^ nat k else 1 / 2 ^ nat (- k))"

text \<open>The binary exponent of a positive number: the \<open>e\<close> with \<open>2^e \<le> a < 2^(e+1)\<close>.\<close>

definition exponent_of :: "real \<Rightarrow> int" where
  "exponent_of a =
     (if 1 \<le> a then int (bit_length (nat \<lfloor>a\<rfloor>)) - 1
      else - int (bit_length (nat (\<lceil>1 / a\<rceil> - 1))))"

definition round_half_even :: "real \<Rightarrow> int" where
  "round_half_even y =
     (let f = \<lfloor>y\<rfloor>; d = y - of_int f
      in if d < 1 / 2 then f else if 1 / 2 < d then f + 1 else if even f then f else f + 1)"

text \<open>
  The magnitude is rounded to a multiple of the quantum of its binade (of the least
  binade for a subnormal result); a result beyond the greatest finite number is an
  infinity.
\<close>

definition round_float :: "nat \<Rightarrow> int \<Rightarrow> int \<Rightarrow> real \<Rightarrow> jsnum" where
  "round_float p emin emax x =
     (if x = 0 then Fin 0
      else
        let a = \<bar>x\<bar>;
            k = max (exponent_of a) emin - int p + 1;
            m = round_half_even (a / pow2 k);
            r = of_int m * pow2 k
        in if pow2 (emax + 1) \<le> r then (if 0 < x then PInf else NInf)
           else Fin (if 0 < x then r else - r))"

definition to_double :: "real \<Rightarrow> jsnum" where
  "to_double x = round_float 53 (- 1022) 1023 x"

definition to_float32 :: "real \<Rightarrow> jsnum" where
  "to_float32 x = round_float 24 (- 126) 127 x"

text \<open>Rounding the exact result of an operation; an infinity or NaN stays what it is.\<close>

fun rounded :: "(real \<Rightarrow> jsnum) \<Rightarrow> jsnum \<Rightarrow> jsnum" where
  "rounded rnd (Fin a) = rnd a"
| "rounded rnd x = x"

subsection \<open>Exact results of the operations\<close>

fun num_neg :: "jsnum \<Rightarrow> jsnum" where
  "num_neg (Fin a) = Fin (- a)"
| "num_neg PInf = NInf"
| "num_neg NInf = PInf"
| "num_neg NaN = NaN"

fun num_add :: "jsnum \<Rightarrow> jsnum \<Rightarrow> jsnum" where
  "num_add (Fin a) (Fin b) = Fin (a + b)"
| "num_add (Fin a) PInf = PInf"
| "num_add (Fin a) NInf = NInf"
| "num_add PInf (Fin b) = PInf"
| "num_add PInf PInf = PInf"
| "num_add PInf NInf = NaN"
| "num_add NInf (Fin b) = NInf"
| "num_add NInf NInf = NInf"
| "num_add NInf PInf = NaN"
| "num_add NaN _ = NaN"
| "num_add _ NaN = NaN"

definition num_sub :: "jsnum \<Rightarrow> jsnum \<Rightarrow> jsnum" where
  "num_sub a b = num_add a (num_neg b)"

text \<open>The sign of an infinite product or quotient: \<open>True\<close> is positive.\<close>

definition inf_of_sign :: "bool \<Rightarrow> jsnum" where
  "inf_of_sign pos = (if pos then PInf else NInf)"

fun num_mul :: "jsnum \<Rightarrow> jsnum \<Rightarrow> jsnum" where
  "num_mul (Fin a) (Fin b) = Fin (a * b)"
| "num_mul (Fin a) PInf = (if a = 0 then NaN else inf_of_sign (0 < a))"
| "num_mul (Fin a) NInf = (if a = 0 then NaN else inf_of_sign (a < 0))"
| "num_mul PInf (Fin b) = (if b = 0 then NaN else inf_of_sign (0 < b))"
| "num_mul NInf (Fin b) = (if b = 0 then NaN else inf_of_sign (b < 0))"
| "num_mul PInf PInf = PInf"
| "num_mul PInf NInf = NInf"
| "num_mul NInf PInf = NInf"
| "num_mul NInf NInf = PInf"
| "num_mul NaN _ = NaN"
| "num_mul _ NaN = NaN"

text \<open>
  Division: a finite number over zero is an infinity of the dividend's sign, and
  \<open>0 / 0\<close> is NaN (the zero divisor is taken as \<open>+0\<close>).
\<close>

fun num_div :: "jsnum \<Rightarrow> jsnum \<Rightarrow> jsnum" where
  "num_div (Fin a) (Fin b) =
     (if b = 0 then (if a = 0 then NaN else inf_of_sign (0 < a)) else Fin (a / b))"
| "num_div (Fin a) PInf = Fin 0"
| "num_div (Fin a) NInf = Fin 0"
| "num_div PInf (Fin b) = inf_of_sign (0 \<le> b)"
| "num_div NInf (Fin b) = inf_of_sign (b < 0)"
| "num_div PInf PInf = NaN"
| "num_div PInf NInf = NaN"
| "num_div NInf PInf = NaN"
| "num_div NInf NInf = NaN"
| "num_div NaN _ = NaN"
| "num_div _ NaN = NaN"

subsection \<open>The operators of the language and of the tensor library\<close>

text \<open>\<open>+\<close>, \<open>*\<close> and \<open>/\<close> on numbers: the exact result rounded to a double.\<close>

definition js_add :: "jsnum \<Rightarrow> jsnum \<Rightarrow> jsnum" where
  "js_add a b = rounded to_double (num_add a b)"

definition js_mul :: "jsnum \<Rightarrow> jsnum \<Rightarrow> jsnum" where
  "js_mul a b = rounded to_double (num_mul a b)"

definition js_div :: "jsnum \<Rightarrow> jsnum \<Rightarrow> jsnum" where
  "js_div a b = rounded to_double (num_div a b)"

text \<open>
  A tensor holds 32-bit floats: a number is rounded, as by \<open>Math.fround\<close>, when it is
  stored, and \<open>add\<close>, \<open>sub\<close>, \<open>mul\<close> and \<open>div\<close> give for each element the 32-bit
  float nearest to the exact result.
\<close>

definition fround :: "jsnum \<Rightarrow> jsnum" where
  "fround x = rounded to_float32 x"

definition f32_add :: "jsnum \<Rightarrow> jsnum \<Rightarrow> jsnum" where
  "f32_add a b = rounded to_float32 (num_add a b)"

definition f32_sub :: "jsnum \<Rightarrow> jsnum \<Rightarrow> jsnum" where
  "f32_sub a b = rounded to_float32 (num_sub a b)"

definition f32_mul :: "jsnum \<Rightarrow> jsnum \<Rightarrow> jsnum" where
  "f32_mul a b = rounded to_float32 (num_mul a b)"

definition f32_div :: "jsnum \<Rightarrow> jsnum \<Rightarrow> jsnum" where
  "f32_div a b = rounded to_float32 (num_div a b)"

text \<open>\<open>Math.floor\<close>.\<close>

fun math_floor :: "jsnum \<Rightarrow> jsnum" where
  "math_floor (Fin a) = Fin (of_int \<lfloor>a\<rfloor>)"
| "math_floor x = x"

text \<open>\<open>a < b\<close> on numbers: false as soon as one side is NaN.\<close>

fun num_less :: "jsnum \<Rightarrow> jsnum \<Rightarrow> bool" where
  "num_less (Fin a) (Fin b) = (a < b)"
| "num_less (Fin a) PInf = True"
| "num_less NInf (Fin b) = True"
| "num_less NInf PInf = True"
| "num_less _ _ = False"

subsection \<open>Decimal rendering of integers\<close>

definition digit_char :: "nat \<Rightarrow> char" where
  "digit_char d = ''0123456789'' ! d"

function show_nat :: "nat \<Rightarrow> string" where
  "show_nat n = (if n < 10 then [digit_char n] else show_nat (n div 10) @ [digit_char (n mod 10)])"
  by pat_completeness auto
termination
  by (relation "measure id") auto

declare show_nat.simps [simp del]

definition show_int :: "int \<Rightarrow> string" where
  "show_int i = (if i < 0 then CHR ''-'' # show_nat (nat (- i)) else show_nat (nat i))"

subsection \<open>Cell values and the language runtime\<close>

text \<open>
  A cell of a decoded row, as the CSV decoder's dynamic typing yields it: a missing
  column (\<open>undefined\<close>), an empty cell (\<open>null\<close>), a boolean, a number, a text, or a
  \<open>Date\<close> object (its time value in milliseconds, \<open>None\<close> for an invalid date).
\<close>

datatype jsval =
    JUndefined
  | JNull
  | JBool bool
  | JNum jsnum
  | JStr string
  | JDate "int option"

text \<open>
  What the language runtime supplies and the source does not define: the date parser
  behind \<open>new Date(string)\<close> (milliseconds since the epoch, \<open>None\<close> for an invalid
  date), the conversion of a string to a number, the rendering of a number that does
  not print as its plain digits and of a \<open>Date\<close> as a string, the month of a local
  time value, and the offset of the local time zone in milliseconds, at a UTC instant
  and at a local time value.
\<close>

record js_runtime =
  date_parse :: "string \<Rightarrow> int option"
  string_to_number :: "string \<Rightarrow> jsnum"
  number_to_string :: "real \<Rightarrow> string"
  date_to_string :: "int option \<Rightarrow> string"
  month_from_time :: "int \<Rightarrow> nat"
  tza_of_utc :: "int \<Rightarrow> int"
  tza_of_local :: "int \<Rightarrow> int"

text \<open>Truthiness, as \<open>&&\<close>, \<open>||\<close> and \<open>!\<close> test it.\<close>

fun truthy :: "jsval \<Rightarrow> bool" where
  "truthy JUndefined = False"
| "truthy JNull = False"
| "truthy (JBool b) = b"
| "truthy (JNum n) = (n \<noteq> Fin 0 \<and> n \<noteq> NaN)"
| "truthy (JStr s) = (s \<noteq> [])"
| "truthy (JDate t) = True"

text \<open>\<open>ToNumber\<close>, which \<open>isNaN\<close> and the arithmetic operators apply to an operand.\<close>

fun to_number :: "js_runtime \<Rightarrow> jsval \<Rightarrow> jsnum" where
  "to_number rt JUndefined = NaN"
| "to_number rt JNull = Fin 0"
| "to_number rt (JBool b) = Fin (if b then 1 else 0)"
| "to_number rt (JNum n) = n"
| "to_number rt (JStr s) = string_to_number rt s"
| "to_number rt (JDate None) = NaN"
| "to_number rt (JDate (Some t)) = Fin (of_int t)"

definition isNaN :: "js_runtime \<Rightarrow> jsval \<Rightarrow> bool" where
  "isNaN rt v = (to_number rt v = NaN)"

text \<open>
  \<open>ToString\<close> of a number: an integer of magnitude up to \<open>2^53\<close> prints as its
  decimal digits. Any other finite number prints as the shortest digits that read
  back as the number, in exponent notation from \<open>1e21\<close> on; the language leaves the
  choice among equally short digits to the runtime, and so does the model.
\<close>

fun num_to_string :: "js_runtime \<Rightarrow> jsnum \<Rightarrow> string" where
  "num_to_string rt (Fin a) =
     (if of_int \<lfloor>a\<rfloor> = a \<and> \<bar>a\<bar> \<le> 2 ^ 53 then show_int \<lfloor>a\<rfloor> else number_to_string rt a)"
| "num_to_string rt PInf = ''Infinity''"
| "num_to_string rt NInf = ''-Infinity''"
| "num_to_string rt NaN = ''NaN''"

fun to_string :: "js_runtime \<Rightarrow> jsval \<Rightarrow> string" where
  "to_string rt JUndefined = ''undefined''"
| "to_string rt JNull = ''null''"
| "to_string rt (JBool b) = (if b then ''true'' else ''false'')"
| "to_string rt (JNum n) = num_to_string rt n"
| "to_string rt (JStr s) = s"
| "to_string rt (JDate t) = date_to_string rt t"

text \<open>
  The binary \<open>+\<close>: a \<open>Date\<close> operand becomes its string, a string on either side
  makes it a concatenation, and otherwise both sides are added as numbers.
\<close>

fun is_stringy :: "jsval \<Rightarrow> bool" where
  "is_stringy (JStr s) = True"
| "is_stringy (JDate t) = True"
| "is_stringy _ = False"

definition js_plus :: "js_runtime \<Rightarrow> jsval \<Rightarrow> jsval \<Rightarrow> jsval" where
  "js_plus rt a b =
     (if is_stringy a \<or> is_stringy b then JStr (to_string rt a @ to_string rt b)
      else JNum (js_add (to_number rt a) (to_number rt b)))"

section \<open>Region binning\<close>

text \<open>
  \<open>getRegionId(longitude, latitude, regionSize)\<close>: the two divisions convert their
  left operand to a number; the region size is the number the caller parsed.
\<close>

definition getRegionId :: "js_runtime \<Rightarrow> jsval \<Rightarrow> jsval \<Rightarrow> jsnum \<Rightarrow> string" where
  "getRegionId rt longitude latitude regionSize =
     (let lonCell = math_floor (js_div (to_number rt longitude) regionSize);
          latCell = math_floor (js_div (to_number rt latitude) regionSize)
      in ''region_'' @ num_to_string rt lonCell @ ''_'' @ num_to_string rt latCell)"

section \<open>Dates\<close>

text \<open>
  A \<open>Date\<close> is its time value: milliseconds since the epoch, \<open>None\<close> when the date is
  invalid. \<open>new Date(v)\<close> copies a \<open>Date\<close>, parses a string, and converts anything
  else to a number that must lie within the range of time values and is truncated
  towards zero.
\<close>

definition msPerDay :: int where
  "msPerDay = 86400000"

definition msPerHour :: int where
  "msPerHour = 3600000"

definition maxTime :: int where
  "maxTime = 8640000000000000"

fun time_clip :: "jsnum \<Rightarrow> int option" where
  "time_clip (Fin a) =
     (if \<bar>a\<bar> \<le> of_int maxTime then Some (if 0 \<le> a then \<lfloor>a\<rfloor> else \<lceil>a\<rceil>) else None)"
| "time_clip _ = None"

fun new_Date :: "js_runtime \<Rightarrow> jsval \<Rightarrow> int option" where
  "new_Date rt (JDate t) = t"
| "new_Date rt (JStr s) = date_parse rt s"
| "new_Date rt v = time_clip (to_number rt v)"

text \<open>
  The calendar date string \<open>toISOString().split('T')[0]\<close> names a UTC day; the model
  holds the number of that day (days since the epoch) in its place. The string
  determines the day and the day the string, and \<open>new Date\<close> of the string is midnight
  UTC of that day, so comparing two such dates is comparing their day numbers.
\<close>

definition utc_day :: "int \<Rightarrow> int" where
  "utc_day t = t div msPerDay"

definition local_time :: "js_runtime \<Rightarrow> int \<Rightarrow> int" where
  "local_time rt t = t + tza_of_utc rt t"

definition getHours :: "js_runtime \<Rightarrow> int \<Rightarrow> nat" where
  "getHours rt t = nat ((local_time rt t div msPerHour) mod 24)"

definition getDay :: "js_runtime \<Rightarrow> int \<Rightarrow> nat" where
  "getDay rt t = nat ((local_time rt t div msPerDay + 4) mod 7)"

definition getMonth :: "js_runtime \<Rightarrow> int \<Rightarrow> nat" where
  "getMonth rt t = month_from_time rt (local_time rt t)"

section \<open>The processor and its stages\<close>

datatype js_error =
    Error string
  | TypeError
  | RangeError
  | TensorError

record raw_row =
  pickup_datetime :: jsval
  pickup_longitude :: jsval
  pickup_latitude :: jsval
  passenger_count :: jsval

record trip_record =
  trip_timestamp :: int
  trip_date :: int
  trip_hour :: nat
  trip_dayOfWeek :: nat
  trip_month :: nat
  trip_region :: string
  trip_longitude :: jsval
  trip_latitude :: jsval
  trip_passenger_count :: jsval

record bucket =
  date :: int
  hour :: nat
  region :: string
  demand :: nat
  totalPassengers :: jsval
  dayOfWeek :: nat
  month :: nat
  isWeekend :: nat

text \<open>
  Tensors of the numeric library: a rank-3 tensor is its shape and its nested values,
  a rank-1 tensor the list of its values.
\<close>

record tensor3d =
  shape :: "nat \<times> nat \<times> nat"
  values3 :: "jsnum list list list"

record sequence_set =
  features :: tensor3d
  targets :: "jsnum list"
  dates :: "(int \<times> string) list"
  regions :: "string list"

record scaler =
  scaler_min :: jsnum
  scaler_max :: jsnum

record train_set =
  train_features :: tensor3d
  train_targets :: "jsnum list"

record test_set =
  test_features :: tensor3d
  test_targets :: "jsnum list"
  test_dates :: "(int \<times> string) list"
  originalTargets :: "jsnum list"

record split_result =
  train :: train_set
  test :: test_set
  featureCount :: nat
  sequenceLength :: nat

record future_set =
  future_features :: tensor3d
  future_dates :: "(int \<times> string) list"

record processor =
  rawData :: "raw_row list option"
  processedData :: "trip_record list option"
  aggregatedData :: "bucket list option"
  sequences :: "sequence_set option"
  trainData :: "train_set option"
  testData :: "test_set option"
  featureScaler :: "scaler option"
  targetScaler :: "scaler option"

definition new_processor :: processor where
  "new_processor = \<lparr>rawData = None, processedData = None, aggregatedData = None,
     sequences = None, trainData = None, testData = None, featureScaler = None,
     targetScaler = None\<rparr>"

subsection \<open>loadRawCSV\<close>

text \<open>
  The decoder either completes with the rows it decoded or reports an error. The row
  filter keeps a row when the whole \<open>&&\<close> chain is truthy.
\<close>

datatype papa_outcome = Complete "raw_row list" | Failed string

definition isValid :: "js_runtime \<Rightarrow> raw_row \<Rightarrow> bool" where
  "isValid rt row =
     (truthy (pickup_datetime row) \<and>
      truthy (pickup_longitude row) \<and>
      truthy (pickup_latitude row) \<and>
      \<not> isNaN rt (pickup_longitude row) \<and>
      \<not> isNaN rt (pickup_latitude row))"

definition loadRawCSV ::
  "js_runtime \<Rightarrow> papa_outcome \<Rightarrow> processor \<Rightarrow> (js_error + raw_row list) \<times> processor" where
  "loadRawCSV rt outcome s =
     (case outcome of
        Failed message \<Rightarrow> (Inl (Error (''CSV parsing failed: '' @ message)), s)
      | Complete data \<Rightarrow>
          if data = [] then (Inl (Error ''CSV file is empty or could not be parsed''), s)
          else
            let kept = filter (isValid rt) data;
                s' = s\<lparr>rawData := Some kept\<rparr>
            in if kept = []
               then (Inl (Error ''No valid records found. Required columns: pickup_datetime, pickup_longitude, pickup_latitude''), s')
               else (Inr kept, s'))"

subsection \<open>processRawData\<close>

text \<open>
  One trip: \<open>toISOString\<close> raises on an invalid date, the \<open>catch\<close> turns that into
  \<open>null\<close> (here \<open>None\<close>), and nothing else in the body can raise.
\<close>

definition process_trip :: "js_runtime \<Rightarrow> jsnum \<Rightarrow> raw_row \<Rightarrow> trip_record option" where
  "process_trip rt regionSize trip =
     (let pickupDate = new_Date rt (pickup_datetime trip);
          regionId = getRegionId rt (pickup_longitude trip) (pickup_latitude trip) regionSize
      in case pickupDate of
           None \<Rightarrow> None
         | Some t \<Rightarrow> Some \<lparr>
             trip_timestamp = t,
             trip_date = utc_day t,
             trip_hour = getHours rt t,
             trip_dayOfWeek = getDay rt t,
             trip_month = getMonth rt t,
             trip_region = regionId,
             trip_longitude = pickup_longitude trip,
             trip_latitude = pickup_latitude trip,
             trip_passenger_count =
               (if truthy (passenger_count trip) then passenger_count trip else JNum (Fin 1))\<rparr>)"

definition processRawData ::
  "js_runtime \<Rightarrow> string \<Rightarrow> jsnum \<Rightarrow> processor \<Rightarrow> (js_error + trip_record list) \<times> processor" where
  "processRawData rt aggregationLevel regionSize s =
     (case rawData s of
        None \<Rightarrow> (Inl (Error ''No raw data loaded''), s)
      | Some rows \<Rightarrow>
          if rows = [] then (Inl (Error ''No raw data loaded''), s)
          else
            let processedTrips = List.map_filter (process_trip rt regionSize) rows
            in (Inr processedTrips, s\<lparr>processedData := Some processedTrips\<rparr>))"

subsection \<open>aggregateData\<close>

text \<open>
  The grouping key is the string \<open>date_region\<close>, or \<open>date_hh_region\<close> with the hour
  padded to two digits. Neither a date nor a padded hour holds an underscore, so the
  string determines its parts; the model keeps the parts. \<open>groupedData\<close> is the
  object's entries in insertion order, which is the order \<open>Object.values\<close> lists them
  in.
\<close>

type_synonym group_key = "int \<times> nat option \<times> string"

definition trip_key :: "string \<Rightarrow> trip_record \<Rightarrow> group_key" where
  "trip_key aggregationLevel trip =
     (if aggregationLevel = ''daily''
      then (trip_date trip, None, trip_region trip)
      else (trip_date trip, Some (trip_hour trip), trip_region trip))"

definition new_bucket :: "trip_record \<Rightarrow> bucket" where
  "new_bucket trip = \<lparr>
     date = trip_date trip,
     hour = trip_hour trip,
     region = trip_region trip,
     demand = 0,
     totalPassengers = JNum (Fin 0),
     dayOfWeek = trip_dayOfWeek trip,
     month = trip_month trip,
     isWeekend = (if trip_dayOfWeek trip = 0 \<or> trip_dayOfWeek trip = 6 then 1 else 0)\<rparr>"

definition count_trip :: "js_runtime \<Rightarrow> trip_record \<Rightarrow> bucket \<Rightarrow> bucket" where
  "count_trip rt trip b =
     b\<lparr>demand := demand b + 1,
       totalPassengers := js_plus rt (totalPassengers b) (trip_passenger_count trip)\<rparr>"

definition add_trip ::
  "js_runtime \<Rightarrow> string \<Rightarrow> (group_key \<times> bucket) list \<Rightarrow> trip_record \<Rightarrow> (group_key \<times> bucket) list" where
  "add_trip rt aggregationLevel groupedData trip =
     (let key = trip_key aggregationLevel trip;
          grouped = (if map_of groupedData key = None
                     then groupedData @ [(key, new_bucket trip)] else groupedData)
      in map (\<lambda>(k, b). if k = key then (k, count_trip rt trip b) else (k, b)) grouped)"

text \<open>
  \<open>sort\<close> with the comparator \<open>new Date(a.date) - new Date(b.date)\<close>: a stable sort by
  date.
\<close>

definition sort_by_date :: "bucket list \<Rightarrow> bucket list" where
  "sort_by_date bs = sort_key date bs"

definition aggregateData ::
  "js_runtime \<Rightarrow> string \<Rightarrow> processor \<Rightarrow> (js_error + bucket list) \<times> processor" where
  "aggregateData rt aggregationLevel s =
     (case processedData s of
        None \<Rightarrow> (Inl (Error ''No processed data available''), s)
      | Some trips \<Rightarrow>
          let groupedData = foldl (add_trip rt aggregationLevel) [] trips;
              aggregated = sort_by_date (map snd groupedData)
          in (Inr aggregated, s\<lparr>aggregatedData := Some aggregated\<rparr>))"

subsection \<open>createSequences\<close>

text \<open>\<open>[...new Set(xs)]\<close>: the distinct elements in the order of their first occurrence.\<close>

definition unique :: "'a list \<Rightarrow> 'a list" where
  "unique xs = foldl (\<lambda>acc x. if x \<in> set acc then acc else acc @ [x]) [] xs"

definition regionData_of :: "bucket list \<Rightarrow> string \<Rightarrow> bucket list" where
  "regionData_of aggregated r = sort_by_date (filter (\<lambda>d. region d = r) aggregated)"

definition featureVector :: "js_runtime \<Rightarrow> bucket \<Rightarrow> jsnum list" where
  "featureVector rt d =
     [Fin (real (demand d)),
      js_div (Fin (real (dayOfWeek d))) (Fin 6),
      Fin (real (isWeekend d)),
      js_div (to_number rt (totalPassengers d)) (Fin (real (max 1 (demand d))))]"

text \<open>
  The two loops of one region, on buckets: for every \<open>i\<close> from \<open>sequenceLength\<close> to the
  end, the buckets \<open>j = i - sequenceLength, ..., i - 1\<close> of the window and the bucket
  \<open>i\<close> of the target. A region with no more than \<open>sequenceLength\<close> buckets is skipped.
\<close>

definition window_of :: "bucket list \<Rightarrow> nat \<Rightarrow> nat \<Rightarrow> bucket list" where
  "window_of regionData len i = map (\<lambda>j. regionData ! j) [i - len..<i]"

definition region_samples :: "nat \<Rightarrow> bucket list \<Rightarrow> (bucket list \<times> bucket) list" where
  "region_samples len regionData =
     (if length regionData \<le> len then []
      else map (\<lambda>i. (window_of regionData len i, regionData ! i)) [len..<length regionData])"

definition sequence_samples :: "nat \<Rightarrow> bucket list \<Rightarrow> (bucket list \<times> bucket) list" where
  "sequence_samples len aggregated =
     concat (map (\<lambda>r. region_samples len (regionData_of aggregated r))
       (unique (map region aggregated)))"

text \<open>
  \<open>tf.tensor3d\<close> of nested arrays infers the shape from the first elements and
  raises unless the arrays nest three deep. A ragged array, which no caller below
  builds from windows of one length, is taken as an error too. The tensor stores
  every number as a 32-bit float.
\<close>

definition tensor3d_of :: "jsnum list list list \<Rightarrow> js_error + tensor3d" where
  "tensor3d_of vs =
     (case vs of
        [] \<Rightarrow> Inl TensorError
      | w # _ \<Rightarrow>
          (case w of
             [] \<Rightarrow> Inl TensorError
           | v # _ \<Rightarrow>
               if list_all (\<lambda>w'. length w' = length w \<and> list_all (\<lambda>v'. length v' = length v) w') vs
               then Inr \<lparr>shape = (length vs, length w, length v),
                         values3 = map (map (map fround)) vs\<rparr>
               else Inl TensorError))"

text \<open>\<open>tf.tensor1d\<close> stores 32-bit floats as well.\<close>

definition tensor1d_of :: "jsnum list \<Rightarrow> jsnum list" where
  "tensor1d_of vs = map fround vs"

definition createSequences ::
  "js_runtime \<Rightarrow> nat \<Rightarrow> processor \<Rightarrow> (js_error + sequence_set) \<times> processor" where
  "createSequences rt len s =
     (case aggregatedData s of
        None \<Rightarrow> (Inl (Error ''No aggregated data available''), s)
      | Some aggregated \<Rightarrow>
          if aggregated = [] then (Inl (Error ''No aggregated data available''), s)
          else
            let samples = sequence_samples len aggregated;
                fs = map (\<lambda>(w, t). map (featureVector rt) w) samples;
                ts = map (\<lambda>(w, t). Fin (real (demand t))) samples;
                ds = map (\<lambda>(w, t). (date t, region t)) samples
            in if fs = []
               then (Inl (Error ''No sequences could be created. Check sequence length and data size.''), s)
               else case tensor3d_of fs of
                      Inl e \<Rightarrow> (Inl e, s)
                    | Inr tensor \<Rightarrow>
                        let sq = \<lparr>features = tensor, targets = tensor1d_of ts, dates = ds,
                                  regions = unique (map region aggregated)\<rparr>
                        in (Inr sq, s\<lparr>sequences := Some sq\<rparr>))"

subsection \<open>createScaler and splitData\<close>

text \<open>
  \<open>tensor.min()\<close> and \<open>tensor.max()\<close> reduce all the elements of a tensor to one
  number: the running extremum starts at the first element and is replaced by an
  element that is NaN or beyond it. The reduction of an empty tensor is taken as NaN.
\<close>

fun reduce_min :: "jsnum list \<Rightarrow> jsnum" where
  "reduce_min [] = NaN"
| "reduce_min (x # xs) = foldl (\<lambda>m v. if v = NaN \<or> num_less v m then v else m) x xs"

fun reduce_max :: "jsnum list \<Rightarrow> jsnum" where
  "reduce_max [] = NaN"
| "reduce_max (x # xs) = foldl (\<lambda>m v. if v = NaN \<or> num_less m v then v else m) x xs"

definition createScaler :: "jsnum list \<Rightarrow> scaler" where
  "createScaler vs = \<lparr>scaler_min = reduce_min vs, scaler_max = reduce_max vs\<rparr>"

text \<open>
  \<open>normalize\<close> and \<open>denormalize\<close> act on every element of their argument; here they
  are given on one element and mapped over a tensor. \<open>x.sub(min).div(max.sub(min))\<close>
  and \<open>x.mul(max.sub(min)).add(min)\<close> are three tensor operations each, and each
  rounds its result to a 32-bit float.
\<close>

definition normalize :: "scaler \<Rightarrow> jsnum \<Rightarrow> jsnum" where
  "normalize sc x = f32_div (f32_sub x (scaler_min sc)) (f32_sub (scaler_max sc) (scaler_min sc))"

definition denormalize :: "scaler \<Rightarrow> jsnum \<Rightarrow> jsnum" where
  "denormalize sc x = f32_add (f32_mul x (f32_sub (scaler_max sc) (scaler_min sc))) (scaler_min sc)"

definition elements3 :: "tensor3d \<Rightarrow> jsnum list" where
  "elements3 t = concat (concat (values3 t))"

definition map_tensor3d :: "(jsnum \<Rightarrow> jsnum) \<Rightarrow> tensor3d \<Rightarrow> tensor3d" where
  "map_tensor3d f t = t\<lparr>values3 := map (map (map f)) (values3 t)\<rparr>"

text \<open>
  \<open>t.slice([begin, 0, 0], [count, -1, -1])\<close>: \<open>count\<close> samples from \<open>begin\<close> on, whole.
\<close>

definition slice_samples :: "nat \<Rightarrow> nat \<Rightarrow> tensor3d \<Rightarrow> tensor3d" where
  "slice_samples begin count t =
     \<lparr>shape = (count, fst (snd (shape t)), snd (snd (shape t))),
      values3 = take count (drop begin (values3 t))\<rparr>"

text \<open>
  \<open>splitData(trainRatio)\<close>, for a number as the ratio. The train size is the floor
  of the product as the language computes it, a double. A train size that is not
  finite, below zero or above the number of samples, which no ratio between 0 and 1
  gives, is taken as an error of the tensor library's \<open>slice\<close>.
\<close>

definition splitData ::
  "jsnum \<Rightarrow> processor \<Rightarrow> (js_error + split_result) \<times> processor" where
  "splitData trainRatio s =
     (case sequences s of
        None \<Rightarrow> (Inl (Error ''No sequences created''), s)
      | Some sq \<Rightarrow>
          let totalSamples = fst (shape (features sq));
              trainSize = math_floor (js_mul (Fin (real totalSamples)) trainRatio)
          in case trainSize of
               Fin t \<Rightarrow>
                 if t < 0 \<or> real totalSamples < t then (Inl TensorError, s)
                 else
               let n = nat \<lfloor>t\<rfloor>;
                   X_train = slice_samples 0 n (features sq);
                   y_train = take n (targets sq);
                   X_test = slice_samples n (totalSamples - n) (features sq);
                   y_test = drop n (targets sq);
                   test_dates' = drop n (dates sq);
                   fsc = createScaler (elements3 X_train);
                   tsc = createScaler y_train;
                   tr = \<lparr>train_features = map_tensor3d (normalize fsc) X_train,
                         train_targets = map (normalize tsc) y_train\<rparr>;
                   te = \<lparr>test_features = map_tensor3d (normalize fsc) X_test,
                         test_targets = map (normalize tsc) y_test,
                         test_dates = test_dates',
                         originalTargets = y_test\<rparr>
               in (Inr \<lparr>train = tr, test = te,
                         featureCount = snd (snd (shape (features sq))),
                         sequenceLength = fst (snd (shape (features sq)))\<rparr>,
                   s\<lparr>featureScaler := Some fsc, targetScaler := Some tsc,
                     trainData := Some tr, testData := Some te\<rparr>)
             | _ \<Rightarrow> (Inl TensorError, s))"

subsection \<open>generateFutureSequence\<close>

text \<open>
  The \<open>i\<close>-th future date: \<open>lastDate\<close> is midnight UTC of the last day; \<open>setDate\<close> moves
  its local time by \<open>i\<close> local days and converts back to UTC, and \<open>toISOString\<close>
  raises when the result left the range of time values.
\<close>

definition future_date :: "js_runtime \<Rightarrow> int \<Rightarrow> nat \<Rightarrow> int option" where
  "future_date rt lastDay i =
     (let lastDate = lastDay * msPerDay;
          moved = local_time rt lastDate + int i * msPerDay;
          u = moved - tza_of_local rt moved
      in if \<bar>u\<bar> \<le> maxTime then Some (utc_day u) else None)"

text \<open>
  One region of the loop: \<open>Inr None\<close> when the region is passed over, the error of
  \<open>toISOString\<close>, or the region's base window and its labels.
\<close>

definition future_region ::
  "js_runtime \<Rightarrow> bucket list \<Rightarrow> nat \<Rightarrow> nat \<Rightarrow> int \<Rightarrow> string \<Rightarrow>
     js_error + (jsnum list list \<times> (int \<times> string) list) option" where
  "future_region rt aggregated len daysToPredict lastDay r =
     (let regionData = regionData_of aggregated r
      in if length regionData < len then Inr None
         else
           let lastSequence = (if len = 0 then regionData
                               else drop (length regionData - len) regionData);
               baseSequence = map (featureVector rt) lastSequence
           in case those (map (future_date rt lastDay) [1..<daysToPredict + 1]) of
                None \<Rightarrow> Inl RangeError
              | Some ds \<Rightarrow> Inr (Some (baseSequence, map (\<lambda>d. (d, r)) ds)))"

fun for_each_region ::
  "(string \<Rightarrow> js_error + ('a \<times> 'b) option) \<Rightarrow> string list \<Rightarrow> js_error + ('a \<times> 'b) list" where
  "for_each_region f [] = Inr []"
| "for_each_region f (r # rs) =
     (case f r of
        Inl e \<Rightarrow> Inl e
      | Inr None \<Rightarrow> for_each_region f rs
      | Inr (Some x) \<Rightarrow>
          (case for_each_region f rs of Inl e \<Rightarrow> Inl e | Inr xs \<Rightarrow> Inr (x # xs)))"

definition generateFutureSequence ::
  "js_runtime \<Rightarrow> nat \<Rightarrow> processor \<Rightarrow> js_error + future_set" where
  "generateFutureSequence rt daysToPredict s =
     (case (aggregatedData s, sequences s) of
        (Some aggregated, Some sq) \<Rightarrow>
          if aggregated = [] then Inl TypeError
          else
            let len = fst (snd (shape (features sq)));
                lastDay = date (last aggregated)
            in (case for_each_region
                       (future_region rt aggregated len daysToPredict lastDay) (regions sq) of
                  Inl e \<Rightarrow> Inl e
                | Inr found \<Rightarrow>
                    if found = [] then Inl (Error ''Could not generate future sequences'')
                    else
                      (case featureScaler s of
                         None \<Rightarrow> Inl TypeError
                       | Some fsc \<Rightarrow>
                           (case tensor3d_of (map fst found) of
                              Inl e \<Rightarrow> Inl e
                            | Inr tensor \<Rightarrow>
                                Inr \<lparr>future_features = map_tensor3d (normalize fsc) tensor,
                                     future_dates = concat (map snd found)\<rparr>)))
      | _ \<Rightarrow> Inl (Error ''No data available for future prediction''))"

section \<open>Notions the properties are stated with\<close>

text \<open>The grouping key a finished bucket stands for.\<close>

definition bucket_key :: "string \<Rightarrow> bucket \<Rightarrow> group_key" where
  "bucket_key aggregationLevel b =
     (if aggregationLevel = ''daily''
      then (date b, None, region b)
      else (date b, Some (hour b), region b))"

text \<open>Two finite numbers within a tolerance of each other.\<close>

fun close_to :: "real \<Rightarrow> jsnum \<Rightarrow> jsnum \<Rightarrow> bool" where
  "close_to eps (Fin a) (Fin b) = (\<bar>a - b\<bar> \<le> eps)"
| "close_to eps _ _ = False"

text \<open>The finite numbers of the two formats: rounding leaves them as they are.\<close>

definition is_double :: "real \<Rightarrow> bool" where
  "is_double a = (to_double a = Fin a)"

definition is_float32 :: "real \<Rightarrow> bool" where
  "is_float32 a = (to_float32 a = Fin a)"

text \<open>
  The doubles beyond \<open>2^53\<close> in magnitude, all of them integers, are the cell indices
  whose digits the runtime chooses. The language requires of a runtime that the digits
  read back as the number: so they tell two of these numbers apart, they are not the
  digits of an integer within \<open>2^53\<close>, and they are made of digits, a sign, a point
  and an exponent mark.
\<close>

definition beyond_safe :: "real \<Rightarrow> bool" where
  "beyond_safe a = (is_double a \<and> of_int \<lfloor>a\<rfloor> = a \<and> 2 ^ 53 < \<bar>a\<bar>)"

definition renders_faithfully :: "js_runtime \<Rightarrow> bool" where
  "renders_faithfully rt \<longleftrightarrow>
     (\<forall>a. beyond_safe a \<longrightarrow>
        CHR ''_'' \<notin> set (number_to_string rt a)
        \<and> number_to_string rt a \<noteq> ''Infinity''
        \<and> number_to_string rt a \<noteq> ''-Infinity''
        \<and> (\<forall>i. number_to_string rt a \<noteq> show_int i)
        \<and> (\<forall>b. beyond_safe b \<longrightarrow> number_to_string rt a = number_to_string rt b \<longrightarrow> a = b))"

text \<open>A cell that is there: neither a missing column nor an empty cell or text.\<close>

definition present :: "jsval \<Rightarrow> bool" where
  "present v = (v \<noteq> JUndefined \<and> v \<noteq> JNull \<and> v \<noteq> JStr [])"

text \<open>The comparison \<open>v >= 1\<close>.\<close>

definition at_least_one :: "js_runtime \<Rightarrow> jsval \<Rightarrow> bool" where
  "at_least_one rt v = (to_number rt v \<noteq> NaN \<and> \<not> num_less (to_number rt v) (Fin 1))"

text \<open>What holds of the grouped entries after the trips \<open>ts\<close> have been added.\<close>

definition grouped_ok ::
  "string \<Rightarrow> (group_key \<times> bucket) list \<Rightarrow> trip_record list \<Rightarrow> bool" where
  "grouped_ok lvl g ts \<longleftrightarrow>
     distinct (map fst g)
     \<and> fst ` set g = trip_key lvl ` set ts
     \<and> (\<forall>(k, b) \<in> set g.
          bucket_key lvl b = k \<and> demand b = length (filter (\<lambda>t. trip_key lvl t = k) ts))
     \<and> sum_list (map (\<lambda>(k, b). demand b) g) = length ts"

section \<open>Worked inputs\<close>

text \<open>
  A runtime for the worked examples: the time zone of New York around the change to
  daylight time of 8 March 2015 (07:00 UTC, 02:00 local), and a date parser that knows
  the timestamps the examples use. No example prints a number beyond \<open>2^53\<close>; this
  runtime marks one with a letter before its digits. The decimal literals of the
  examples are the doubles nearest to them.
\<close>

definition example_runtime :: js_runtime where
  "example_runtime = \<lparr>
     date_parse = map_of
       [(''2015-03-06 10:15:00'', 1425654900000),
        (''2015-03-06 17:40:00'', 1425681600000),
        (''2015-03-07 09:30:00'', 1425738600000)],
     string_to_number = (\<lambda>s. NaN),
     number_to_string = (\<lambda>a. CHR ''e'' # show_int \<lfloor>a\<rfloor>),
     date_to_string = (\<lambda>t. []),
     month_from_time = (\<lambda>t. 2),
     tza_of_utc = (\<lambda>t. if t < 1425798000000 then - 18000000 else - 14400000),
     tza_of_local = (\<lambda>t. if t < 1425780000000 then - 18000000 else - 14400000)\<rparr>"

definition row_friday_morning :: raw_row where
  "row_friday_morning = \<lparr>
     pickup_datetime = JStr ''2015-03-06 10:15:00'',
     pickup_longitude = JNum (to_double (- 73.98)),
     pickup_latitude = JNum (to_double 40.75),
     passenger_count = JNum (Fin 2)\<rparr>"

definition row_friday_evening :: raw_row where
  "row_friday_evening = \<lparr>
     pickup_datetime = JStr ''2015-03-06 17:40:00'',
     pickup_longitude = JNum (to_double (- 73.99)),
     pickup_latitude = JNum (to_double 40.76),
     passenger_count = JUndefined\<rparr>"

definition row_saturday :: raw_row where
  "row_saturday = \<lparr>
     pickup_datetime = JStr ''2015-03-07 09:30:00'',
     pickup_longitude = JNum (to_double (- 73.98)),
     pickup_latitude = JNum (to_double 40.75),
     passenger_count = JNum (Fin 0)\<rparr>"

definition row_bad_timestamp :: raw_row where
  "row_bad_timestamp = \<lparr>
     pickup_datetime = JStr ''not a date'',
     pickup_longitude = JNum (to_double (- 73.98)),
     pickup_latitude = JNum (to_double 40.75),
     passenger_count = JNum (Fin 1)\<rparr>"

definition row_no_longitude :: raw_row where
  "row_no_longitude = \<lparr>
     pickup_datetime = JStr ''2015-03-06 10:15:00'',
     pickup_longitude = JNull,
     pickup_latitude = JNum (to_double 40.75),
     passenger_count = JNum (Fin 1)\<rparr>"

definition row_negative_count :: raw_row where
  "row_negative_count = \<lparr>
     pickup_datetime = JStr ''2015-03-06 10:15:00'',
     pickup_longitude = JNum (to_double (- 73.98)),
     pickup_latitude = JNum (to_double 40.75),
     passenger_count = JNum (Fin (- 2))\<rparr>"

definition trip_friday_morning :: trip_record where
  "trip_friday_morning = \<lparr>
     trip_timestamp = 1425654900000,
     trip_date = 16500,
     trip_hour = 10,
     trip_dayOfWeek = 5,
     trip_month = 2,
     trip_region = ''region_-1480_815'',
     trip_longitude = JNum (to_double (- 73.98)),
     trip_latitude = JNum (to_double 40.75),
     trip_passenger_count = JNum (Fin 2)\<rparr>"

definition trip_friday_evening :: trip_record where
  "trip_friday_evening = \<lparr>
     trip_timestamp = 1425681600000,
     trip_date = 16500,
     trip_hour = 17,
     trip_dayOfWeek = 5,
     trip_month = 2,
     trip_region = ''region_-1480_815'',
     trip_longitude = JNum (to_double (- 73.99)),
     trip_latitude = JNum (to_double 40.76),
     trip_passenger_count = JNum (Fin 1)\<rparr>"

definition trip_saturday :: trip_record where
  "trip_saturday = \<lparr>
     trip_timestamp = 1425738600000,
     trip_date = 16501,
     trip_hour = 9,
     trip_dayOfWeek = 6,
     trip_month = 2,
     trip_region = ''region_-1480_815'',
     trip_longitude = JNum (to_double (- 73.98)),
     trip_latitude = JNum (to_double 40.75),
     trip_passenger_count = JNum (Fin 1)\<rparr>"

definition example_trips :: "trip_record list" where
  "example_trips = [trip_friday_morning, trip_friday_evening, trip_saturday]"

definition bucket_friday :: bucket where
  "bucket_friday = \<lparr>date = 16500, hour = 10, region = ''region_-1480_815'', demand = 2,
     totalPassengers = JNum (Fin 3), dayOfWeek = 5, month = 2, isWeekend = 0\<rparr>"

definition bucket_friday_10 :: bucket where
  "bucket_friday_10 = \<lparr>date = 16500, hour = 10, region = ''region_-1480_815'', demand = 1,
     totalPassengers = JNum (Fin 2), dayOfWeek = 5, month = 2, isWeekend = 0\<rparr>"

definition bucket_friday_17 :: bucket where
  "bucket_friday_17 = \<lparr>date = 16500, hour = 17, region = ''region_-1480_815'', demand = 1,
     totalPassengers = JNum (Fin 1), dayOfWeek = 5, month = 2, isWeekend = 0\<rparr>"

definition bucket_saturday :: bucket where
  "bucket_saturday = \<lparr>date = 16501, hour = 9, region = ''region_-1480_815'', demand = 1,
     totalPassengers = JNum (Fin 1), dayOfWeek = 6, month = 2, isWeekend = 1\<rparr>"

definition example_sequences :: sequence_set where
  "example_sequences = \<lparr>
     features = \<lparr>shape = (1, 1, 4), values3 = [[[Fin 2, Fin (13981013 / 16777216), Fin 0, Fin (3 / 2)]]]\<rparr>,
     targets = [Fin 1],
     dates = [(16501, ''region_-1480_815'')],
     regions = [''region_-1480_815'']\<rparr>"

definition example_sequences_hourly :: sequence_set where
  "example_sequences_hourly = \<lparr>
     features = \<lparr>shape = (2, 1, 4),
       values3 = [[[Fin 1, Fin (13981013 / 16777216), Fin 0, Fin 2]], [[Fin 1, Fin (13981013 / 16777216), Fin 0, Fin 1]]]\<rparr>,
     targets = [Fin 1, Fin 1],
     dates = [(16500, ''region_-1480_815''), (16501, ''region_-1480_815'')],
     regions = [''region_-1480_815'']\<rparr>"

text \<open>
  The processor after the whole pipeline has run on three rows, with hourly
  aggregation, windows of one bucket and a train ratio of 0.8.
\<close>

definition example_state :: processor where
  "example_state =
     snd (splitData (to_double 0.8)
       (snd (createSequences example_runtime 1
         (snd (aggregateData example_runtime ''hourly''
           (snd (processRawData example_runtime ''hourly'' (to_double 0.05)
             (snd (loadRawCSV example_runtime
               (Complete [row_friday_morning, row_friday_evening, row_saturday])
               new_processor)))))))))"

section \<open>Properties of rounding\<close>

lemma bit_length_eval:
  "bit_length 0 = 0"
  "bit_length (Suc 0) = 1"
  "bit_length 1 = 1"
  "bit_length (numeral k) = Suc (bit_length (numeral k div 2))"
  by (simp_all add: bit_length.simps [of 0] bit_length.simps [of "Suc 0"]
      bit_length.simps [of "numeral k"])

lemmas float_eval = to_double_def to_float32_def round_float_def Let_def exponent_of_def
  round_half_even_def pow2_def bit_length_eval

subsection \<open>Powers of two and binary digits\<close>

lemma pow2_powi: "pow2 k = 2 powi k"
  by (simp add: pow2_def power_int_def inverse_eq_divide power_one_over)

lemma pow2_pos [simp]: "0 < pow2 k"
  by (simp add: pow2_def)

lemma pow2_nonneg [simp]: "0 \<le> pow2 k"
  by (simp add: pow2_def)

lemma pow2_neq_0 [simp]: "pow2 k \<noteq> 0"
  by (simp add: pow2_def)

lemma pow2_nat: "pow2 (int n) = 2 ^ n"
  by (simp add: pow2_def)

lemma pow2_neg_nat: "pow2 (- int n) = 1 / 2 ^ n"
  by (simp add: pow2_powi power_int_minus inverse_eq_divide)

lemma pow2_add: "pow2 (a + b) = pow2 a * pow2 b"
  by (simp add: pow2_powi power_int_add)

lemma pow2_diff: "pow2 (a - b) = pow2 a / pow2 b"
  by (simp add: pow2_powi power_int_diff)

lemma pow2_mono: "a \<le> b \<Longrightarrow> pow2 a \<le> pow2 b"
  by (simp add: pow2_powi power_int_increasing)

lemma pow2_strict_mono: "a < b \<Longrightarrow> pow2 a < pow2 b"
  by (simp add: pow2_powi power_int_strict_increasing)

lemma pow2_less_imp: "pow2 a < pow2 b \<Longrightarrow> a < b"
  using pow2_mono [of b a] by (cases "a < b") auto

lemma pow2_int: "0 \<le> k \<Longrightarrow> pow2 k = of_int (2 ^ nat k)"
  by (simp add: pow2_def)

lemma bit_length_bounds:
  "0 < n \<Longrightarrow> 2 ^ (bit_length n - 1) \<le> n \<and> n < 2 ^ bit_length n \<and> 0 < bit_length n"
proof (induction n rule: bit_length.induct)
  case (1 n)
  show ?case
  proof (cases "n div 2 = 0")
    case True
    with "1.prems" have "n = 1" by (simp add: div_eq_0_iff)
    then show ?thesis
      by (simp add: bit_length_eval)
  next
    case False
    with "1.IH" "1.prems" have ih: "2 ^ (bit_length (n div 2) - 1) \<le> n div 2"
      "n div 2 < 2 ^ bit_length (n div 2)" "0 < bit_length (n div 2)"
      by simp_all
    from "1.prems" have bl: "bit_length n = Suc (bit_length (n div 2))"
      by (simp add: bit_length.simps [of n])
    from ih(3) obtain b where b: "bit_length (n div 2) = Suc b"
      by (cases "bit_length (n div 2)") auto
    from ih(1) b have "2 * 2 ^ b \<le> 2 * (n div 2)" by simp
    also have "\<dots> \<le> n" by simp
    finally have lo: "2 ^ (bit_length n - 1) \<le> n" by (simp add: bl b)
    from ih(2) have "Suc (n div 2) \<le> 2 ^ bit_length (n div 2)" by simp
    then have "2 * Suc (n div 2) \<le> 2 * 2 ^ bit_length (n div 2)" by simp
    moreover have "n < 2 * Suc (n div 2)" by simp
    ultimately have hi: "n < 2 ^ bit_length n" by (simp add: bl)
    from lo hi bl show ?thesis by simp
  qed
qed

lemma exponent_of_bounds:
  assumes "0 < a"
  shows "pow2 (exponent_of a) \<le> a" and "a < pow2 (exponent_of a + 1)"
proof -
  have "pow2 (exponent_of a) \<le> a \<and> a < pow2 (exponent_of a + 1)"
  proof (cases "1 \<le> a")
    case True
    let ?n = "nat \<lfloor>a\<rfloor>"
    from True have n: "0 < ?n" by simp
    note b = bit_length_bounds [OF n]
    from b obtain j where j: "bit_length ?n = Suc j" by (cases "bit_length ?n") auto
    have e: "exponent_of a = int j" using True by (simp add: exponent_of_def j)
    from b j have "2 ^ j \<le> ?n" by simp
    then have "(2::real) ^ j \<le> real ?n" by (metis of_nat_le_iff of_nat_numeral of_nat_power)
    also have "real ?n \<le> a" using True by simp
    finally have lo: "pow2 (exponent_of a) \<le> a" by (simp add: e pow2_nat)
    from b j have "Suc ?n \<le> 2 ^ Suc j" by simp
    then have "real (Suc ?n) \<le> 2 ^ Suc j" by (metis of_nat_le_iff of_nat_numeral of_nat_power)
    moreover have "a < real (Suc ?n)" using True by simp linarith
    ultimately have "a < 2 ^ Suc j" by linarith
    then have hi: "a < pow2 (exponent_of a + 1)"
      using pow2_nat [of "Suc j"] by (simp add: e add.commute)
    from lo hi show ?thesis ..
  next
    case False
    define y where "y = 1 / a"
    define c where "c = \<lceil>y\<rceil>"
    define n where "n = nat (c - 1)"
    from False assms have y: "1 < y" by (simp add: y_def)
    have cy: "y \<le> of_int c" "of_int c - 1 < y" unfolding c_def by linarith+
    from y cy(1) have c: "2 \<le> c" by linarith
    then have n: "0 < n" by (simp add: n_def)
    note b = bit_length_bounds [OF n]
    from b obtain j where j: "bit_length n = Suc j" by (cases "bit_length n") auto
    have e: "exponent_of a = - int (Suc j)"
      using False j by (simp add: exponent_of_def y_def [symmetric] c_def [symmetric] n_def [symmetric])
    from c have "int n = c - 1" by (simp add: n_def)
    then have "real_of_int (int n) = of_int (c - 1)" by (simp only:)
    then have rn: "real n = of_int c - 1" by simp
    from b j have "Suc n \<le> 2 ^ Suc j" by simp
    then have "real (Suc n) \<le> 2 ^ Suc j" by (metis of_nat_le_iff of_nat_numeral of_nat_power)
    moreover have "y \<le> real (Suc n)" using rn cy(1) by simp
    ultimately have "y \<le> 2 ^ Suc j" by linarith
    with assms have "1 / 2 ^ Suc j \<le> a"
      by (simp add: y_def field_simps)
    then have lo: "pow2 (exponent_of a) \<le> a" by (simp only: e pow2_neg_nat)
    from b j have "2 ^ j \<le> n" by simp
    then have "(2::real) ^ j \<le> real n" by (metis of_nat_le_iff of_nat_numeral of_nat_power)
    moreover have "real n < y" using rn cy(2) by simp
    ultimately have "2 ^ j < y" by linarith
    with assms have "a < 1 / 2 ^ j" by (simp add: y_def field_simps)
    moreover have "exponent_of a + 1 = - int j" by (simp add: e)
    then have "pow2 (exponent_of a + 1) = 1 / 2 ^ j"
      by (simp only: pow2_neg_nat)
    ultimately have hi: "a < pow2 (exponent_of a + 1)" by simp
    from lo hi show ?thesis ..
  qed
  then show "pow2 (exponent_of a) \<le> a" and "a < pow2 (exponent_of a + 1)" by simp_all
qed

lemma exponent_of_unique:
  assumes "pow2 e \<le> a" and "a < pow2 (e + 1)"
  shows "exponent_of a = e"
proof -
  from assms(1) have pos: "0 < a" using pow2_pos [of e] by linarith
  note b = exponent_of_bounds [OF pos]
  from b(1) assms(2) have "pow2 (exponent_of a) < pow2 (e + 1)" by linarith
  then have "exponent_of a < e + 1" by (rule pow2_less_imp)
  moreover from assms(1) b(2) have "pow2 e < pow2 (exponent_of a + 1)" by linarith
  then have "e < exponent_of a + 1" by (rule pow2_less_imp)
  ultimately show ?thesis by simp
qed

subsection \<open>Rounding to an integer\<close>

lemma round_half_even_error: "\<bar>of_int (round_half_even y) - y\<bar> \<le> 1 / 2"
proof -
  have "of_int \<lfloor>y\<rfloor> \<le> y" "y < of_int \<lfloor>y\<rfloor> + 1" by linarith+
  then show ?thesis by (auto simp: round_half_even_def Let_def)
qed

lemma round_half_even_int [simp]: "round_half_even (of_int n) = n"
  by (simp add: round_half_even_def)

lemma round_half_even_le: "y \<le> of_int n \<Longrightarrow> round_half_even y \<le> n"
proof -
  assume le: "y \<le> of_int n"
  show ?thesis
  proof (cases "y = of_int n")
    case True
    then show ?thesis by simp
  next
    case False
    with le have "y < of_int n" by simp
    then have "\<lfloor>y\<rfloor> < n" by linarith
    then show ?thesis by (auto simp: round_half_even_def Let_def)
  qed
qed

lemma round_half_even_ge: "of_int n \<le> y \<Longrightarrow> n \<le> round_half_even y"
proof -
  assume "of_int n \<le> y"
  then have "n \<le> \<lfloor>y\<rfloor>" by linarith
  then show ?thesis by (auto simp: round_half_even_def Let_def)
qed

subsection \<open>Rounding to a binary format\<close>

lemma round_half_even_nonneg: "0 \<le> y \<Longrightarrow> 0 \<le> round_half_even y"
  using round_half_even_ge [of 0 y] by simp

lemma round_float_zero [simp]: "round_float p emin emax 0 = Fin 0"
  by (simp add: round_float_def)

text \<open>The rounded magnitude of a number that is not zero, and the quantum it is a multiple of.\<close>

lemma round_float_magnitude:
  fixes p :: nat and emin emax :: int and x :: real
  assumes "x \<noteq> 0"
  defines "k \<equiv> max (exponent_of \<bar>x\<bar>) emin - int p + 1"
  defines "m \<equiv> round_half_even (\<bar>x\<bar> / pow2 k)"
  shows "round_float p emin emax x =
           (if pow2 (emax + 1) \<le> of_int m * pow2 k then (if 0 < x then PInf else NInf)
            else Fin (if 0 < x then of_int m * pow2 k else - (of_int m * pow2 k)))"
    and "0 \<le> m"
    and "\<bar>of_int m * pow2 k - \<bar>x\<bar>\<bar> \<le> pow2 k / 2"
    and "of_int m \<le> pow2 (int p)"
proof -
  show "round_float p emin emax x =
           (if pow2 (emax + 1) \<le> of_int m * pow2 k then (if 0 < x then PInf else NInf)
            else Fin (if 0 < x then of_int m * pow2 k else - (of_int m * pow2 k)))"
    using assms(1) by (simp add: round_float_def Let_def k_def m_def)
  show "0 \<le> m" unfolding m_def by (rule round_half_even_nonneg) simp
  have "\<bar>of_int m - \<bar>x\<bar> / pow2 k\<bar> \<le> 1 / 2"
    unfolding m_def by (rule round_half_even_error)
  then have "\<bar>of_int m - \<bar>x\<bar> / pow2 k\<bar> * pow2 k \<le> 1 / 2 * pow2 k"
    by (rule mult_right_mono) simp
  moreover have "\<bar>of_int m - \<bar>x\<bar> / pow2 k\<bar> * pow2 k = \<bar>of_int m * pow2 k - \<bar>x\<bar>\<bar>"
  proof -
    have "\<bar>of_int m - \<bar>x\<bar> / pow2 k\<bar> * pow2 k = \<bar>(of_int m - \<bar>x\<bar> / pow2 k) * pow2 k\<bar>"
      by (simp add: abs_mult)
    also have "(of_int m - \<bar>x\<bar> / pow2 k) * pow2 k = of_int m * pow2 k - \<bar>x\<bar>"
      by (simp add: left_diff_distrib)
    finally show ?thesis .
  qed
  ultimately show "\<bar>of_int m * pow2 k - \<bar>x\<bar>\<bar> \<le> pow2 k / 2" by simp
  from assms(1) have pos: "0 < \<bar>x\<bar>" by simp
  have "\<bar>x\<bar> < pow2 (exponent_of \<bar>x\<bar> + 1)" by (rule exponent_of_bounds(2) [OF pos])
  also have "pow2 (exponent_of \<bar>x\<bar> + 1) \<le> pow2 (k + int p)"
    by (rule pow2_mono) (simp add: k_def)
  finally have "\<bar>x\<bar> < pow2 k * pow2 (int p)" by (simp add: pow2_add)
  then have "\<bar>x\<bar> / pow2 k < pow2 (int p)" by (simp add: field_simps)
  then have "\<bar>x\<bar> / pow2 k \<le> of_int (2 ^ p)" by (simp add: pow2_nat)
  then have "m \<le> 2 ^ p" unfolding m_def by (rule round_half_even_le)
  then have "real_of_int m \<le> of_int (2 ^ p)" by (simp only: of_int_le_iff)
  then show "of_int m \<le> pow2 (int p)" by (simp add: pow2_nat)
qed

lemma round_float_of_multiple:
  assumes "0 < r" and "r < pow2 (emax + 1)"
    and "r = of_int n * pow2 (max (exponent_of r) emin - int p + 1)"
  shows "round_float p emin emax r = Fin r" and "round_float p emin emax (- r) = Fin (- r)"
proof -
  let ?k = "max (exponent_of r) emin - int p + 1"
  have "of_int n * pow2 ?k / pow2 ?k = real_of_int n" by simp
  with assms(3) have "r / pow2 ?k = of_int n" by (simp only:)
  then have m: "round_half_even (r / pow2 ?k) = n" by simp
  from assms(1,2) m assms(3) [symmetric]
  show "round_float p emin emax r = Fin r"
    by (simp add: round_float_def Let_def)
  from assms(1,2) m assms(3) [symmetric]
  show "round_float p emin emax (- r) = Fin (- r)"
    by (simp add: round_float_def Let_def)
qed

text \<open>A rounded number rounds to itself.\<close>

lemma round_float_idem:
  assumes "round_float p emin emax x = Fin b" and "0 < p"
  shows "round_float p emin emax b = Fin b"
proof (cases "x = 0")
  case True
  with assms(1) show ?thesis by simp
next
  case False
  define k where "k = max (exponent_of \<bar>x\<bar>) emin - int p + 1"
  define m where "m = round_half_even (\<bar>x\<bar> / pow2 k)"
  define r where "r = of_int m * pow2 k"
  note parts =
    round_float_magnitude(1) [where p = p and emin = emin and emax = emax, OF False,
      folded k_def m_def]
    round_float_magnitude(2-4) [where p = p and emin = emin, OF False, folded k_def m_def]
  from parts(1) assms(1) have small: "r < pow2 (emax + 1)"
    and b: "b = (if 0 < x then r else - r)"
    by (auto simp: r_def split: if_splits)
  show ?thesis
  proof (cases "m = 0")
    case True
    with b have "b = 0" by (simp add: r_def)
    then show ?thesis by simp
  next
    case mpos: False
    with parts(2) have m1: "1 \<le> m" by simp
    then have rpos: "0 < r" by (simp add: r_def)
    have klow: "emin - int p + 1 \<le> k" by (simp add: k_def)
    have "\<exists>n. r = of_int n * pow2 (max (exponent_of r) emin - int p + 1)"
    proof (cases "of_int m = pow2 (int p)")
      case True
      then have r: "r = pow2 (k + int p)" by (simp add: r_def pow2_add mult.commute)
      have "exponent_of r = k + int p"
        by (rule exponent_of_unique) (simp_all add: r pow2_strict_mono)
      moreover from klow have "emin \<le> k + int p" by simp
      ultimately have k': "max (exponent_of r) emin - int p + 1 = k + 1" by simp
      have "k + int p = (int p - 1) + (k + 1)" by simp
      then have "pow2 (k + int p) = pow2 (int p - 1) * pow2 (k + 1)"
        by (simp only: pow2_add)
      moreover from assms(2) have "pow2 (int p - 1) = of_int (2 ^ nat (int p - 1))"
        by (intro pow2_int) simp
      ultimately have "r = of_int (2 ^ nat (int p - 1)) * pow2 (k + 1)"
        by (simp only: r)
      with k' show ?thesis by metis
    next
      case False
      with parts(4) have "of_int m < pow2 (int p)" by simp
      then have "r < pow2 (int p) * pow2 k" by (simp add: r_def)
      then have "r < pow2 (k + int p)" by (simp add: pow2_add mult.commute)
      with exponent_of_bounds(1) [OF rpos] have "pow2 (exponent_of r) < pow2 (k + int p)"
        by linarith
      then have "exponent_of r < k + int p" by (rule pow2_less_imp)
      with klow have le: "max (exponent_of r) emin - int p + 1 \<le> k" by simp
      define k' where "k' = max (exponent_of r) emin - int p + 1"
      from le have "0 \<le> k - k'" by (simp add: k'_def)
      then have "pow2 (k - k') = of_int (2 ^ nat (k - k'))" by (rule pow2_int)
      moreover have "pow2 k = pow2 (k - k') * pow2 k'"
        using pow2_add [of "k - k'" k'] by simp
      ultimately have "r = of_int (m * 2 ^ nat (k - k')) * pow2 k'"
        by (simp add: r_def)
      then show ?thesis unfolding k'_def by metis
    qed
    then obtain n where n: "r = of_int n * pow2 (max (exponent_of r) emin - int p + 1)" ..
    from round_float_of_multiple [OF rpos small n] b show ?thesis by simp
  qed
qed

text \<open>A double of magnitude \<open>2^53\<close> or more is an integer.\<close>

lemma big_double_integer:
  assumes "to_double b = Fin b" and "2 ^ 53 \<le> \<bar>b\<bar>"
  shows "of_int \<lfloor>b\<rfloor> = b"
proof -
  from assms(2) have nz: "b \<noteq> 0" by auto
  then have pos: "0 < \<bar>b\<bar>" by simp
  define k where "k = max (exponent_of \<bar>b\<bar>) (- 1022) - int 53 + 1"
  define m where "m = round_half_even (\<bar>b\<bar> / pow2 k)"
  note parts = round_float_magnitude(1) [where p = 53 and emin = "- 1022" and emax = 1023,
      OF nz, folded k_def m_def]
  from assms(2) have "pow2 53 \<le> \<bar>b\<bar>" by (simp add: pow2_def)
  with exponent_of_bounds(2) [OF pos] have "pow2 53 < pow2 (exponent_of \<bar>b\<bar> + 1)" by linarith
  then have "53 < exponent_of \<bar>b\<bar> + 1" by (rule pow2_less_imp)
  then have k: "0 \<le> k" by (simp add: k_def)
  from parts assms(1) have "\<bar>b\<bar> = of_int m * pow2 k"
    by (auto simp: to_double_def split: if_splits)
  with pow2_int [OF k] have "\<bar>b\<bar> = of_int (m * 2 ^ nat k)" by simp
  then have "b = of_int (m * 2 ^ nat k) \<or> b = - of_int (m * 2 ^ nat k)"
    by linarith
  then have "b = of_int (m * 2 ^ nat k) \<or> b = of_int (- (m * 2 ^ nat k))"
    by simp
  then show ?thesis by (metis floor_of_int)
qed

text \<open>
  The double product of a count and a ratio between 0 and 1 is finite and lies
  between 0 and the count.
\<close>

lemma to_double_within_count:
  assumes "0 \<le> x" and "x \<le> real N" and "N < 2 ^ 53"
  shows "\<exists>y. to_double x = Fin y \<and> 0 \<le> y \<and> y \<le> real N"
proof (cases "x = 0")
  case True
  then show ?thesis by (simp add: to_double_def)
next
  case False
  with assms(1) have pos: "0 < x" by simp
  define k where "k = max (exponent_of \<bar>x\<bar>) (- 1022) - int 53 + 1"
  define m where "m = round_half_even (\<bar>x\<bar> / pow2 k)"
  note parts = round_float_magnitude(1) [where p = 53 and emin = "- 1022" and emax = 1023,
      OF False, folded k_def m_def]
    round_float_magnitude(2) [where p = 53 and emin = "- 1022", OF False, folded k_def m_def]
  from pos have ax: "\<bar>x\<bar> = x" by simp
  from assms(3) have "real N < 2 ^ 53"
    by (metis of_nat_less_iff of_nat_numeral of_nat_power)
  with assms(2) have "x < pow2 53" by (simp add: pow2_def)
  with exponent_of_bounds(1) [OF pos] have "pow2 (exponent_of x) < pow2 53" by linarith
  then have "exponent_of x < 53" by (rule pow2_less_imp)
  then have k: "k \<le> 0" by (simp add: k_def ax)
  then have "pow2 (- k) = of_int (2 ^ nat (- k))" by (intro pow2_int) simp
  moreover have "pow2 (- k) * pow2 k = 1" using pow2_add [of "- k" k] by (simp add: pow2_def)
  ultimately have inv: "1 / pow2 k = of_int (2 ^ nat (- k))"
    by (simp add: field_simps)
  have "x / pow2 k \<le> real N / pow2 k" using assms(2) by (simp add: divide_right_mono)
  also have "real N / pow2 k = of_int (int N * 2 ^ nat (- k))"
    using inv by (simp add: field_simps)
  finally have "m \<le> int N * 2 ^ nat (- k)"
    unfolding m_def ax by (rule round_half_even_le)
  then have "real_of_int m \<le> of_int (int N * 2 ^ nat (- k))" by (simp only: of_int_le_iff)
  also have "\<dots> = real N / pow2 k" using inv by (simp add: field_simps)
  finally have "of_int m * pow2 k \<le> real N" by (simp add: field_simps)
  moreover from \<open>real N < 2 ^ 53\<close> have "real N < pow2 (1023 + 1)"
    using pow2_strict_mono [of 53 1024] by (simp add: pow2_def)
  moreover from parts(2) have "0 \<le> of_int m * pow2 k" by simp
  ultimately show ?thesis
    using parts(1) pos by (simp add: to_double_def)
qed

text \<open>
  The error of rounding to a 32-bit float: relative \<open>2^-24\<close>, or \<open>2^-150\<close> where
  the result is subnormal.
\<close>

lemma to_float32_error:
  assumes "\<bar>y\<bar> \<le> 2 ^ 127"
  shows "\<exists>z. to_float32 y = Fin z \<and> \<bar>z - y\<bar> \<le> \<bar>y\<bar> / 2 ^ 24 + 1 / 2 ^ 150"
proof (cases "y = 0")
  case True
  then show ?thesis by (simp add: to_float32_def)
next
  case False
  then have pos: "0 < \<bar>y\<bar>" by simp
  define k where "k = max (exponent_of \<bar>y\<bar>) (- 126) - int 24 + 1"
  define m where "m = round_half_even (\<bar>y\<bar> / pow2 k)"
  note parts = round_float_magnitude(1) [where p = 24 and emin = "- 126" and emax = 127,
      OF False, folded k_def m_def]
    round_float_magnitude(3) [where p = 24 and emin = "- 126", OF False, folded k_def m_def]
  have half: "pow2 k / 2 = pow2 (k - 1)"
    using pow2_diff [of k 1] by (simp add: pow2_def)
  have quantum: "pow2 (k - 1) \<le> \<bar>y\<bar> / 2 ^ 24 + 1 / 2 ^ 150"
  proof (cases "- 126 \<le> exponent_of \<bar>y\<bar>")
    case True
    then have "k - 1 = exponent_of \<bar>y\<bar> - 24" by (simp add: k_def)
    then have "pow2 (k - 1) = pow2 (exponent_of \<bar>y\<bar>) / pow2 24"
      by (simp only: pow2_diff)
    also have "\<dots> \<le> \<bar>y\<bar> / pow2 24"
      using exponent_of_bounds(1) [OF pos] by (simp add: divide_right_mono)
    finally show ?thesis by (simp add: pow2_def)
  next
    case False
    then have "k - 1 = - 150" by (simp add: k_def)
    then have "pow2 (k - 1) = pow2 (- 150)" by (simp only:)
    also have "pow2 (- 150) = 1 / 2 ^ 150" by (simp add: pow2_def)
    finally show ?thesis by simp
  qed
  from assms have "pow2 (exponent_of \<bar>y\<bar>) \<le> pow2 127"
    using exponent_of_bounds(1) [OF pos] by (simp add: pow2_def)
  moreover have "pow2 127 < pow2 128" by (rule pow2_strict_mono) simp
  ultimately have "pow2 (exponent_of \<bar>y\<bar>) < pow2 128" by linarith
  then have "exponent_of \<bar>y\<bar> < 128" by (rule pow2_less_imp)
  then have "k - 1 \<le> 103" by (simp add: k_def)
  then have "pow2 (k - 1) \<le> pow2 103" by (rule pow2_mono)
  with parts(2) half have "of_int m * pow2 k \<le> \<bar>y\<bar> + pow2 103" by linarith
  with assms have "of_int m * pow2 k \<le> 2 ^ 127 + pow2 103" by linarith
  also have "\<dots> < pow2 (127 + 1)" by (simp add: pow2_def)
  finally have fin: "\<not> pow2 (127 + 1) \<le> of_int m * pow2 k" by simp
  from parts(2) half quantum have err: "\<bar>of_int m * pow2 k - \<bar>y\<bar>\<bar> \<le> \<bar>y\<bar> / 2 ^ 24 + 1 / 2 ^ 150"
    by linarith
  show ?thesis
  proof (cases "0 < y")
    case True
    with parts(1) fin have "to_float32 y = Fin (of_int m * pow2 k)"
      by (simp add: to_float32_def)
    moreover from True err have "\<bar>of_int m * pow2 k - y\<bar> \<le> \<bar>y\<bar> / 2 ^ 24 + 1 / 2 ^ 150"
      by simp
    ultimately show ?thesis by blast
  next
    case neg: False
    with parts(1) fin have "to_float32 y = Fin (- (of_int m * pow2 k))"
      by (simp add: to_float32_def)
    moreover from neg \<open>y \<noteq> 0\<close> err
    have "\<bar>- (of_int m * pow2 k) - y\<bar> \<le> \<bar>y\<bar> / 2 ^ 24 + 1 / 2 ^ 150"
      by (simp add: abs_if split: if_splits)
    ultimately show ?thesis by blast
  qed
qed

text \<open>The rounding errors of the round trip, on reals.\<close>

lemma round_trip_error:
  fixes lo hi x :: real
  assumes "lo \<le> x" and "x \<le> hi" and "\<bar>lo\<bar> \<le> 2 ^ 100" and "\<bar>hi\<bar> \<le> 2 ^ 100"
    and "1 / 2 ^ 100 \<le> hi - lo"
  shows "\<exists>d s q p z.
           to_float32 (hi - lo) = Fin d \<and> 0 < d
           \<and> to_float32 (x - lo) = Fin s
           \<and> to_float32 (s / d) = Fin q
           \<and> to_float32 (q * d) = Fin p
           \<and> to_float32 (p + lo) = Fin z
           \<and> \<bar>q - (x - lo) / (hi - lo)\<bar> \<le> 1 / 2 ^ 20
           \<and> \<bar>z - x\<bar> \<le> (\<bar>x\<bar> + (hi - lo)) / 2 ^ 21"
proof -
  define R where "R = hi - lo"
  define u :: real where "u = 1 / 2 ^ 24"
  define h :: real where "h = 1 / 2 ^ 150"
  have R: "1 / 2 ^ 100 \<le> R" "R \<le> 2 ^ 101" "0 < R"
    using assms by (simp_all add: R_def abs_le_iff)
  have xlo: "0 \<le> x - lo" "x - lo \<le> R" using assms by (simp_all add: R_def)
  have xb: "\<bar>x\<bar> \<le> 2 ^ 100" using assms by (simp add: abs_le_iff)
  have err: "\<exists>z. to_float32 y = Fin z \<and> \<bar>z - y\<bar> \<le> \<bar>y\<bar> * u + h" if "\<bar>y\<bar> \<le> 2 ^ 127" for y
    using to_float32_error [OF that] by (simp add: u_def h_def)
  have "\<bar>R\<bar> \<le> 2 ^ 127" using R by simp
  from err [OF this] R(3) obtain d where d: "to_float32 R = Fin d" "\<bar>d - R\<bar> \<le> R * u + h"
    by auto
  have small: "R * u + h \<le> R / 2"
    using R(1) by (simp add: u_def h_def)
  from d(2) small R(3) have dR: "R / 2 \<le> d" "d \<le> 2 * R" "0 < d" by linarith+
  have "\<bar>x - lo\<bar> \<le> 2 ^ 127" using xlo R by simp
  from err [OF this] xlo(1) obtain s where s: "to_float32 (x - lo) = Fin s"
    "\<bar>s - (x - lo)\<bar> \<le> (x - lo) * u + h"
    by auto
  have "(x - lo) * u \<le> R * u" using xlo(2) by (simp add: u_def)
  with s(2) have E1: "\<bar>s - (x - lo)\<bar> \<le> R * u + h" by linarith
  with xlo small have sR: "\<bar>s\<bar> \<le> 2 * R" by linarith
  have sd: "\<bar>s / d\<bar> \<le> 4"
  proof -
    have "\<bar>s / d\<bar> = \<bar>s\<bar> / d" using dR(3) by simp
    also have "\<dots> \<le> 2 * R / d" using sR dR(3) by (simp add: divide_right_mono)
    also have "\<dots> \<le> 2 * R / (R / 2)"
      using dR(1) R(3) by (intro divide_left_mono) (simp_all add: mult_pos_pos)
    also have "\<dots> = 4" using R(3) by simp
    finally show ?thesis .
  qed
  then have "\<bar>s / d\<bar> \<le> 2 ^ 127" by simp
  from err [OF this] obtain q where q: "to_float32 (s / d) = Fin q"
    "\<bar>q - s / d\<bar> \<le> \<bar>s / d\<bar> * u + h"
    by auto
  have qx: "\<bar>q - (x - lo) / R\<bar> \<le> 1 / 2 ^ 20"
  proof -
    have "s / d - (x - lo) / R = ((s - (x - lo)) * R - (x - lo) * (d - R)) / (d * R)"
      using dR(3) R(3) by (simp add: field_simps)
    then have "\<bar>s / d - (x - lo) / R\<bar> = \<bar>(s - (x - lo)) * R - (x - lo) * (d - R)\<bar> / (d * R)"
      using dR(3) R(3) by (simp add: abs_mult)
    also have "\<dots> \<le> (2 * R * (R * u + h)) / (d * R)"
    proof (rule divide_right_mono)
      have "\<bar>(s - (x - lo)) * R\<bar> \<le> (R * u + h) * R"
        using E1 R(3) by (simp add: abs_mult mult_right_mono)
      then have "\<bar>(s - (x - lo)) * R\<bar> \<le> R * (R * u + h)"
        by (simp only: mult.commute)
      moreover have "\<bar>(x - lo) * (d - R)\<bar> \<le> R * (R * u + h)"
      proof -
        have "\<bar>(x - lo) * (d - R)\<bar> = (x - lo) * \<bar>d - R\<bar>"
          using xlo(1) by (simp add: abs_mult)
        also have "\<dots> \<le> R * \<bar>d - R\<bar>" using xlo(2) by (simp add: mult_right_mono)
        also have "\<dots> \<le> R * (R * u + h)" using d(2) R(3) by (simp add: mult_left_mono)
        finally show ?thesis .
      qed
      moreover have "2 * R * (R * u + h) = R * (R * u + h) + R * (R * u + h)"
        by simp
      ultimately show "\<bar>(s - (x - lo)) * R - (x - lo) * (d - R)\<bar> \<le> 2 * R * (R * u + h)"
        by linarith
      show "0 \<le> d * R" using dR(3) R(3) by simp
    qed
    also have "\<dots> = 2 * (R * u + h) / d" using R(3) by simp
    also have "\<dots> \<le> 2 * (R * u + h) / (R / 2)"
      using dR(1) R(3) by (intro divide_left_mono) (simp_all add: u_def h_def mult_pos_pos)
    also have "\<dots> = 4 * u + 4 * (h / R)" using R(3) by (simp add: field_simps)
    finally have a: "\<bar>s / d - (x - lo) / R\<bar> \<le> 4 * u + 4 * (h / R)" .
    have "h / R \<le> h / (1 / 2 ^ 100)"
      using R(1) by (intro divide_left_mono) (simp_all add: h_def)
    also have "\<dots> = 1 / 2 ^ 50" by (simp add: h_def)
    finally have b: "h / R \<le> 1 / 2 ^ 50" .
    from q(2) sd have c: "\<bar>q - s / d\<bar> \<le> 4 * u + h" by (simp add: u_def)
    from a b c have "\<bar>q - (x - lo) / R\<bar> \<le> 8 * u + h + 4 * (1 / 2 ^ 50)" by linarith
    also have "\<dots> \<le> 1 / 2 ^ 20" by (simp add: u_def h_def)
    finally show ?thesis .
  qed
  have E2: "\<bar>q * d - s\<bar> \<le> \<bar>s\<bar> * u + h * d"
  proof -
    have "q * d - s = (q - s / d) * d" using dR(3) by (simp add: field_simps)
    then have "\<bar>q * d - s\<bar> = \<bar>q - s / d\<bar> * d" using dR(3) by (simp add: abs_mult)
    also have "\<dots> \<le> (\<bar>s / d\<bar> * u + h) * d"
      using q(2) dR(3) by (simp add: mult_right_mono)
    also have "\<dots> = \<bar>s\<bar> * u + h * d" using dR(3) by (simp add: field_simps)
    finally show ?thesis .
  qed
  have su: "\<bar>s\<bar> * u \<le> 2 * R * u" using sR by (simp add: u_def)
  have hd: "h * d \<le> 2 * R * h" using dR(2) by (simp add: h_def)
  from E2 su hd have E2': "\<bar>q * d - s\<bar> \<le> 2 * R * u + 2 * R * h" by linarith
  have tiny: "2 * R * u + 2 * R * h \<le> R" using R(3) by (simp add: u_def h_def)
  from E2' tiny sR have qd: "\<bar>q * d\<bar> \<le> 3 * R" by linarith
  with R(2) have "\<bar>q * d\<bar> \<le> 2 ^ 127" by simp
  from err [OF this] obtain p where p: "to_float32 (q * d) = Fin p"
    "\<bar>p - q * d\<bar> \<le> \<bar>q * d\<bar> * u + h"
    by auto
  have "\<bar>q * d\<bar> * u \<le> 3 * R * u" using qd by (simp add: u_def)
  with p(2) have E3: "\<bar>p - q * d\<bar> \<le> 3 * R * u + h" by linarith
  from E1 E2' E3 have pm: "\<bar>p - (x - lo)\<bar> \<le> 6 * R * u + 2 * R * h + 2 * h" by linarith
  have tiny2: "6 * R * u + 2 * R * h + 2 * h \<le> R"
    using R(1) by (simp add: u_def h_def)
  from pm tiny2 have pl: "\<bar>p + lo\<bar> \<le> \<bar>x\<bar> + R" by linarith
  with xb R(2) have "\<bar>p + lo\<bar> \<le> 2 ^ 127" by simp
  from err [OF this] obtain z where z: "to_float32 (p + lo) = Fin z"
    "\<bar>z - (p + lo)\<bar> \<le> \<bar>p + lo\<bar> * u + h"
    by auto
  have "\<bar>p + lo\<bar> * u \<le> (\<bar>x\<bar> + R) * u" using pl by (simp add: u_def)
  with z(2) have E4: "\<bar>z - (p + lo)\<bar> \<le> \<bar>x\<bar> * u + R * u + h" by (simp add: algebra_simps)
  from E4 pm have "\<bar>z - x\<bar> \<le> \<bar>x\<bar> * u + 7 * R * u + 2 * R * h + 3 * h" by linarith
  moreover have "2 * R * h + 3 * h \<le> R * u" using R(1) by (simp add: u_def h_def)
  moreover have "0 \<le> \<bar>x\<bar> * u" by (simp add: u_def)
  ultimately have "\<bar>z - x\<bar> \<le> 8 * (\<bar>x\<bar> * u) + 8 * R * u" by linarith
  also have "\<dots> = (\<bar>x\<bar> + R) * (8 * u)" by (simp add: algebra_simps)
  finally have "\<bar>z - x\<bar> \<le> (\<bar>x\<bar> + R) * (8 * u)" .
  then have final: "\<bar>z - x\<bar> \<le> (\<bar>x\<bar> + (hi - lo)) / 2 ^ 21" by (simp add: u_def R_def)
  from d(1) dR(3) s(1) q(1) p(1) z(1) qx final show ?thesis
    unfolding R_def by blast
qed

section \<open>Properties of region binning\<close>

lemma digit_char_not_underscore: "d < 10 \<Longrightarrow> digit_char d \<noteq> CHR ''_''"
proof -
  assume "d < 10"
  then have "d \<in> {0, 1, 2, 3, 4, 5, 6, 7, 8, 9}" by auto
  then show ?thesis by (auto simp: digit_char_def)
qed

lemma digit_char_not_minus: "d < 10 \<Longrightarrow> digit_char d \<noteq> CHR ''-''"
proof -
  assume "d < 10"
  then have "d \<in> {0, 1, 2, 3, 4, 5, 6, 7, 8, 9}" by auto
  then show ?thesis by (auto simp: digit_char_def)
qed

lemma digit_char_inj: "a < 10 \<Longrightarrow> b < 10 \<Longrightarrow> digit_char a = digit_char b \<Longrightarrow> a = b"
proof -
  assume "a < 10" "b < 10" and eq: "digit_char a = digit_char b"
  then have "a \<in> {0, 1, 2, 3, 4, 5, 6, 7, 8, 9}" "b \<in> {0, 1, 2, 3, 4, 5, 6, 7, 8, 9}"
    by auto
  with eq show ?thesis by (auto simp: digit_char_def)
qed

lemma show_nat_digits: "c \<in> set (show_nat n) \<Longrightarrow> \<exists>d<10. c = digit_char d"
proof (induction n rule: show_nat.induct)
  case (1 n)
  show ?case
  proof (cases "n < 10")
    case True
    with "1.prems" show ?thesis by (auto simp: show_nat.simps [of n])
  next
    case False
    with "1.prems" have "c \<in> set (show_nat (n div 10)) \<or> c = digit_char (n mod 10)"
      by (auto simp: show_nat.simps [of n])
    then show ?thesis
    proof
      assume "c \<in> set (show_nat (n div 10))"
      with "1.IH" False show ?thesis by simp
    next
      assume "c = digit_char (n mod 10)"
      moreover have "n mod 10 < 10" by simp
      ultimately show ?thesis by blast
    qed
  qed
qed

lemma show_nat_not_Nil: "show_nat n \<noteq> []"
  by (simp add: show_nat.simps [of n])

lemma show_nat_inj: "show_nat m = show_nat n \<Longrightarrow> m = n"
proof (induction m arbitrary: n rule: show_nat.induct)
  case (1 m)
  show ?case
  proof (cases "m < 10")
    case m: True
    show ?thesis
    proof (cases "n < 10")
      case True
      with m "1.prems" show ?thesis
        by (auto simp: show_nat.simps [of m] show_nat.simps [of n] dest: digit_char_inj)
    next
      case False
      with m "1.prems" show ?thesis
        using show_nat_not_Nil [of "n div 10"]
        by (auto simp: show_nat.simps [of m] show_nat.simps [of n] Cons_eq_append_conv)
    qed
  next
    case m: False
    show ?thesis
    proof (cases "n < 10")
      case True
      with m "1.prems" show ?thesis
        using show_nat_not_Nil [of "m div 10"]
        by (auto simp: show_nat.simps [of m] show_nat.simps [of n] append_eq_Cons_conv)
    next
      case False
      with m "1.prems" have "show_nat (m div 10) = show_nat (n div 10)"
        and d: "digit_char (m mod 10) = digit_char (n mod 10)"
        by (auto simp: show_nat.simps [of m] show_nat.simps [of n])
      with "1.IH" m have "m div 10 = n div 10" by simp
      moreover have "m mod 10 = n mod 10"
        by (rule digit_char_inj [OF _ _ d]) simp_all
      ultimately show ?thesis by (metis div_mult_mod_eq)
    qed
  qed
qed

lemma show_nat_no_underscore: "CHR ''_'' \<notin> set (show_nat n)"
proof
  assume "CHR ''_'' \<in> set (show_nat n)"
  then obtain d where "d < 10" "CHR ''_'' = digit_char d"
    using show_nat_digits by blast
  then show False using digit_char_not_underscore [of d] by simp
qed

lemma show_nat_no_minus: "CHR ''-'' \<notin> set (show_nat n)"
proof
  assume "CHR ''-'' \<in> set (show_nat n)"
  then obtain d where "d < 10" "CHR ''-'' = digit_char d"
    using show_nat_digits by blast
  then show False using digit_char_not_minus [of d] by simp
qed

lemma show_int_no_underscore: "CHR ''_'' \<notin> set (show_int i)"
  by (simp add: show_int_def show_nat_no_underscore)

lemma show_nat_hd_not_minus: "show_nat n \<noteq> CHR ''-'' # s"
  using show_nat_no_minus [of n] by (metis list.set_intros(1))

lemma show_int_inj: "show_int i = show_int j \<Longrightarrow> i = j"
proof -
  assume eq: "show_int i = show_int j"
  consider "i < 0" "j < 0" | "i < 0" "\<not> j < 0" | "\<not> i < 0" "j < 0" | "\<not> i < 0" "\<not> j < 0"
    by blast
  then show ?thesis
  proof cases
    case 1
    with eq have "nat (- i) = nat (- j)" by (simp add: show_int_def show_nat_inj)
    with 1 show ?thesis by simp
  next
    case 2
    with eq show ?thesis using show_nat_hd_not_minus [of "nat j" "show_nat (nat (- i))"]
      by (simp add: show_int_def)
  next
    case 3
    with eq show ?thesis using show_nat_hd_not_minus [of "nat i" "show_nat (nat (- j))"]
      by (simp add: show_int_def)
  next
    case 4
    with eq have "nat i = nat j" by (simp add: show_int_def show_nat_inj)
    with 4 show ?thesis by simp
  qed
qed

lemma split_at_sep:
  assumes "c \<notin> set a" "c \<notin> set a'" "a @ c # b = a' @ c # b'"
  shows "a = a' \<and> b = b'"
  using assms
proof (induction a arbitrary: a')
  case Nil
  then show ?case by (cases a') auto
next
  case (Cons x a)
  then show ?case by (cases a') auto
qed

lemma digit_char_not_I: "d < 10 \<Longrightarrow> digit_char d \<noteq> CHR ''I''"
proof -
  assume "d < 10"
  then have "d \<in> {0, 1, 2, 3, 4, 5, 6, 7, 8, 9}" by auto
  then show ?thesis by (auto simp: digit_char_def)
qed

lemma show_nat_no_I: "CHR ''I'' \<notin> set (show_nat n)"
proof
  assume "CHR ''I'' \<in> set (show_nat n)"
  then obtain d where "d < 10" "CHR ''I'' = digit_char d"
    using show_nat_digits by blast
  then show False using digit_char_not_I [of d] by simp
qed

lemma show_int_no_I: "CHR ''I'' \<notin> set (show_int i)"
  by (simp add: show_int_def show_nat_no_I)

lemma show_int_not_Infinity: "show_int i \<noteq> ''Infinity''" "show_int i \<noteq> ''-Infinity''"
proof -
  have "CHR ''I'' \<in> set ''Infinity''" "CHR ''I'' \<in> set ''-Infinity''" by simp_all
  then show "show_int i \<noteq> ''Infinity''" "show_int i \<noteq> ''-Infinity''"
    using show_int_no_I [of i] by metis+
qed

text \<open>The result of rounding is a number of the format.\<close>

lemma to_double_is_double: "to_double q = Fin b \<Longrightarrow> is_double b"
  unfolding is_double_def to_double_def by (rule round_float_idem) simp_all

lemma to_double_not_NaN: "to_double q \<noteq> NaN"
  by (auto simp: to_double_def round_float_def Let_def split: if_splits)

text \<open>
  A cell index is an infinity, an integer within \<open>2^53\<close> or a double beyond it, and is
  printed accordingly.
\<close>

lemma cell_cases:
  obtains (pinf) "math_floor (to_double q) = PInf"
      "num_to_string rt (math_floor (to_double q)) = ''Infinity''"
  | (ninf) "math_floor (to_double q) = NInf"
      "num_to_string rt (math_floor (to_double q)) = ''-Infinity''"
  | (safe) i where "math_floor (to_double q) = Fin (of_int i)"
      "num_to_string rt (math_floor (to_double q)) = show_int i"
  | (beyond) a where "math_floor (to_double q) = Fin a" "beyond_safe a"
      "num_to_string rt (math_floor (to_double q)) = number_to_string rt a"
proof (cases "to_double q")
  case (Fin b)
  then have dbl: "is_double b" by (rule to_double_is_double)
  define M :: int where "M = 2 ^ 53"
  have M: "real_of_int M = 2 ^ 53" by (simp add: M_def)
  show ?thesis
  proof (cases "\<bar>real_of_int \<lfloor>b\<rfloor>\<bar> \<le> 2 ^ 53")
    case True
    with Fin show ?thesis using safe [of "\<lfloor>b\<rfloor>"] by simp
  next
    case False
    then have big: "real_of_int M < \<bar>real_of_int \<lfloor>b\<rfloor>\<bar>" by (simp add: M)
    have "real_of_int M \<le> \<bar>b\<bar>"
    proof (rule ccontr)
      assume "\<not> real_of_int M \<le> \<bar>b\<bar>"
      then have "real_of_int (- M) < b" "b < real_of_int M" by (simp_all add: abs_less_iff)
      then have "real_of_int (- M) \<le> b" "b < real_of_int M" by simp_all
      then have "- M \<le> \<lfloor>b\<rfloor>" "\<lfloor>b\<rfloor> < M"
        by (simp_all only: le_floor_iff floor_less_iff)
      then have "\<bar>\<lfloor>b\<rfloor>\<bar> \<le> M" by linarith
      then have "\<bar>real_of_int \<lfloor>b\<rfloor>\<bar> \<le> real_of_int M"
        by (metis of_int_abs of_int_le_iff)
      with big show False by simp
    qed
    then have "2 ^ 53 \<le> \<bar>b\<bar>" by (simp add: M)
    with dbl have int: "of_int \<lfloor>b\<rfloor> = b"
      unfolding is_double_def by (rule big_double_integer)
    with big dbl have bs: "beyond_safe b" by (simp add: beyond_safe_def M)
    from Fin int have cell: "math_floor (to_double q) = Fin b" by simp
    from bs have "num_to_string rt (Fin b) = number_to_string rt b"
      by (simp add: beyond_safe_def)
    with cell bs show ?thesis using beyond [of b] by simp
  qed
next
  case PInf
  then show ?thesis using pinf by simp
next
  case NInf
  then show ?thesis using ninf by simp
next
  case NaN
  then show ?thesis using to_double_not_NaN [of q] by simp
qed

lemma cell_no_underscore:
  assumes "renders_faithfully rt"
  shows "CHR ''_'' \<notin> set (num_to_string rt (math_floor (to_double q)))"
proof (cases rule: cell_cases [where q = q and rt = rt])
  case pinf
  then show ?thesis by simp
next
  case ninf
  then show ?thesis by simp
next
  case (safe i)
  then show ?thesis by (simp add: show_int_no_underscore)
next
  case (beyond a)
  with assms show ?thesis by (simp add: renders_faithfully_def)
qed

lemma cell_string_inj:
  assumes rt: "renders_faithfully rt"
    and eq: "num_to_string rt (math_floor (to_double q)) = num_to_string rt (math_floor (to_double q'))"
  shows "math_floor (to_double q) = math_floor (to_double q')"
proof -
  note r = rt [unfolded renders_faithfully_def, rule_format]
  show ?thesis
  proof (cases rule: cell_cases [where q = q and rt = rt])
    case pinf
    show ?thesis
    proof (cases rule: cell_cases [where q = q' and rt = rt])
      case pinf': pinf
      with pinf show ?thesis by simp
    next
      case ninf
      with pinf(2) eq show ?thesis by simp
    next
      case (safe i)
      with pinf(2) eq show ?thesis using show_int_not_Infinity(1) [of i] by simp
    next
      case (beyond a)
      with pinf(2) eq have "number_to_string rt a = ''Infinity''" by simp
      with beyond(2) show ?thesis using r [of a] by blast
    qed
  next
    case ninf
    show ?thesis
    proof (cases rule: cell_cases [where q = q' and rt = rt])
      case pinf
      with ninf(2) eq show ?thesis by simp
    next
      case ninf': ninf
      with ninf show ?thesis by simp
    next
      case (safe i)
      with ninf(2) eq show ?thesis using show_int_not_Infinity(2) [of i] by simp
    next
      case (beyond a)
      with ninf(2) eq have "number_to_string rt a = ''-Infinity''" by simp
      with beyond(2) show ?thesis using r [of a] by blast
    qed
  next
    case (safe i)
    show ?thesis
    proof (cases rule: cell_cases [where q = q' and rt = rt])
      case pinf
      with safe(2) eq show ?thesis using show_int_not_Infinity(1) [of i] by simp
    next
      case ninf
      with safe(2) eq show ?thesis using show_int_not_Infinity(2) [of i] by simp
    next
      case safe': (safe j)
      with safe(2) eq have "show_int i = show_int j" by simp
      then have "i = j" by (rule show_int_inj)
      with safe(1) safe'(1) show ?thesis by simp
    next
      case (beyond a)
      with safe(2) eq have "number_to_string rt a = show_int i" by simp
      with beyond(2) show ?thesis using r [of a] by blast
    qed
  next
    case (beyond a)
    show ?thesis
    proof (cases rule: cell_cases [where q = q' and rt = rt])
      case pinf
      with beyond(3) eq have "number_to_string rt a = ''Infinity''" by simp
      with beyond(2) show ?thesis using r [of a] by blast
    next
      case ninf
      with beyond(3) eq have "number_to_string rt a = ''-Infinity''" by simp
      with beyond(2) show ?thesis using r [of a] by blast
    next
      case (safe j)
      with beyond(3) eq have "number_to_string rt a = show_int j" by simp
      with beyond(2) show ?thesis using r [of a] by blast
    next
      case beyond': (beyond a')
      with beyond(3) eq have "number_to_string rt a = number_to_string rt a'" by simp
      with beyond(2) beyond'(2) have "a = a'" using r [of a] by blast
      with beyond(1) beyond'(1) show ?thesis by simp
    qed
  qed
qed

lemma js_div_finite: "0 < s \<Longrightarrow> js_div (Fin a) (Fin s) = to_double (a / s)"
  by (simp add: js_div_def)

lemma getRegionId_finite:
  "getRegionId rt (JNum (Fin lon)) (JNum (Fin lat)) (Fin s) =
    ''region_'' @ num_to_string rt (math_floor (js_div (Fin lon) (Fin s))) @ ''_''
      @ num_to_string rt (math_floor (js_div (Fin lat) (Fin s)))"
  by (simp add: getRegionId_def Let_def)

lemma region_string_inj:
  assumes "renders_faithfully rt"
  shows "''region_'' @ num_to_string rt (math_floor (to_double a)) @ ''_''
           @ num_to_string rt (math_floor (to_double b)) =
         ''region_'' @ num_to_string rt (math_floor (to_double a')) @ ''_''
           @ num_to_string rt (math_floor (to_double b'))
     \<longleftrightarrow> math_floor (to_double a) = math_floor (to_double a')
         \<and> math_floor (to_double b) = math_floor (to_double b')"
    (is "?l = ?r \<longleftrightarrow> ?cells")
proof
  assume "?l = ?r"
  then have "num_to_string rt (math_floor (to_double a)) @ CHR ''_'' # num_to_string rt (math_floor (to_double b))
      = num_to_string rt (math_floor (to_double a')) @ CHR ''_'' # num_to_string rt (math_floor (to_double b'))"
    by simp
  then have "num_to_string rt (math_floor (to_double a)) = num_to_string rt (math_floor (to_double a'))
      \<and> num_to_string rt (math_floor (to_double b)) = num_to_string rt (math_floor (to_double b'))"
    by (rule split_at_sep [OF cell_no_underscore [OF assms] cell_no_underscore [OF assms]])
  then show ?cells using cell_string_inj [OF assms] by blast
next
  assume ?cells
  then show "?l = ?r" by simp
qed

lemma example_runtime_faithful: "renders_faithfully example_runtime"
proof -
  have inj: "a = b" if "beyond_safe a" "beyond_safe b"
    "number_to_string example_runtime a = number_to_string example_runtime b" for a b
  proof -
    from that(3) have "show_int \<lfloor>a\<rfloor> = show_int \<lfloor>b\<rfloor>" by (simp add: example_runtime_def)
    then have "\<lfloor>a\<rfloor> = \<lfloor>b\<rfloor>" by (rule show_int_inj)
    with that(1,2) show ?thesis by (metis beyond_safe_def)
  qed
  have other: "number_to_string example_runtime a \<noteq> show_int i" for a i
  proof -
    have "CHR ''e'' \<notin> set (show_nat n)" for n
    proof
      assume "CHR ''e'' \<in> set (show_nat n)"
      then obtain d where "d < 10" "CHR ''e'' = digit_char d"
        using show_nat_digits by blast
      then have "d \<in> {0, 1, 2, 3, 4, 5, 6, 7, 8, 9}" by auto
      with \<open>CHR ''e'' = digit_char d\<close> show False by (auto simp: digit_char_def)
    qed
    then have "CHR ''e'' \<notin> set (show_int i)" by (simp add: show_int_def)
    moreover have "CHR ''e'' \<in> set (number_to_string example_runtime a)"
      by (simp add: example_runtime_def)
    ultimately show ?thesis by metis
  qed
  have under: "CHR ''_'' \<notin> set (number_to_string example_runtime a)" for a
    by (simp add: example_runtime_def show_int_no_underscore)
  have inf: "number_to_string example_runtime a \<noteq> ''Infinity''"
    "number_to_string example_runtime a \<noteq> ''-Infinity''" for a
    by (simp_all add: example_runtime_def)
  show ?thesis
    unfolding renders_faithfully_def using inj other under inf by blast
qed

lemma region_digits_inj:
  "''region_'' @ show_int a @ ''_'' @ show_int b = ''region_'' @ show_int a' @ ''_'' @ show_int b'
     \<longleftrightarrow> a = a' \<and> b = b'"
proof
  assume "''region_'' @ show_int a @ ''_'' @ show_int b =
    ''region_'' @ show_int a' @ ''_'' @ show_int b'"
  then have "show_int a @ CHR ''_'' # show_int b = show_int a' @ CHR ''_'' # show_int b'"
    by simp
  then have "show_int a = show_int a' \<and> show_int b = show_int b'"
    by (rule split_at_sep [OF show_int_no_underscore show_int_no_underscore])
  then show "a = a' \<and> b = b'" by (simp add: show_int_inj)
qed simp



section \<open>Properties of row validation\<close>

lemma truthy_present: "truthy v \<Longrightarrow> present v"
  by (cases v) (auto simp: present_def)

lemma isValid_present:
  assumes "isValid rt row"
  shows "present (pickup_datetime row)"
    and "present (pickup_longitude row)" and "to_number rt (pickup_longitude row) \<noteq> NaN"
    and "present (pickup_latitude row)" and "to_number rt (pickup_latitude row) \<noteq> NaN"
  using assms by (auto simp: isValid_def isNaN_def truthy_present)

lemma isValid_numeric:
  assumes "truthy (pickup_datetime row)"
    and "pickup_longitude row = JNum (Fin a)" and "a \<noteq> 0"
    and "pickup_latitude row = JNum (Fin b)" and "b \<noteq> 0"
  shows "isValid rt row"
  using assms by (simp add: isValid_def isNaN_def)

lemma loadRawCSV_complete:
  assumes "data \<noteq> []"
  shows "loadRawCSV rt (Complete data) s =
    (if filter (isValid rt) data = []
     then Inl (Error ''No valid records found. Required columns: pickup_datetime, pickup_longitude, pickup_latitude'')
     else Inr (filter (isValid rt) data),
     s\<lparr>rawData := Some (filter (isValid rt) data)\<rparr>)"
  using assms by (simp add: loadRawCSV_def Let_def)

lemma filter_by_membership: "filter (\<lambda>x. x \<in> set (filter P xs)) xs = filter P xs"
  by (rule filter_cong) auto

text \<open>
  Claim C7, as the code has it. From a non-empty decode \<open>loadRawCSV\<close> keeps a
  subsequence of the rows, in their order, and whether a row is kept depends on the row
  alone. Every kept row has a timestamp, a longitude and a latitude that are present,
  and its longitude and latitude convert to numbers; every row with a truthy timestamp
  and a non-zero finite number for longitude and for latitude is kept. Whether the
  timestamp parses is not looked at. When no row is kept the call fails with the error
  that names the three required columns, and an empty decode fails with the error for
  an empty file.
\<close>

theorem loadRawCSV_keeps:
  assumes "data \<noteq> []"
    and "rawData (snd (loadRawCSV rt (Complete data) s)) = Some kept"
  shows "kept = filter (\<lambda>row. row \<in> set kept) data
       \<and> (\<forall>row \<in> set kept.
            present (pickup_datetime row)
            \<and> present (pickup_longitude row) \<and> to_number rt (pickup_longitude row) \<noteq> NaN
            \<and> present (pickup_latitude row) \<and> to_number rt (pickup_latitude row) \<noteq> NaN)
       \<and> (\<forall>row \<in> set data. \<forall>a b.
            truthy (pickup_datetime row)
            \<and> pickup_longitude row = JNum (Fin a) \<and> a \<noteq> 0
            \<and> pickup_latitude row = JNum (Fin b) \<and> b \<noteq> 0
            \<longrightarrow> row \<in> set kept)
       \<and> fst (loadRawCSV rt (Complete data) s) =
           (if kept = []
            then Inl (Error ''No valid records found. Required columns: pickup_datetime, pickup_longitude, pickup_latitude'')
            else Inr kept)
       \<and> loadRawCSV rt (Complete []) s =
           (Inl (Error ''CSV file is empty or could not be parsed''), s)"
proof -
  from assms have kept: "kept = filter (isValid rt) data"
    by (simp add: loadRawCSV_complete)
  have 1: "kept = filter (\<lambda>row. row \<in> set kept) data"
    unfolding kept by (rule filter_by_membership [symmetric])
  have 2: "\<forall>row \<in> set kept.
            present (pickup_datetime row)
            \<and> present (pickup_longitude row) \<and> to_number rt (pickup_longitude row) \<noteq> NaN
            \<and> present (pickup_latitude row) \<and> to_number rt (pickup_latitude row) \<noteq> NaN"
    unfolding kept using isValid_present [of rt] by auto
  have 3: "\<forall>row \<in> set data. \<forall>a b.
            truthy (pickup_datetime row)
            \<and> pickup_longitude row = JNum (Fin a) \<and> a \<noteq> 0
            \<and> pickup_latitude row = JNum (Fin b) \<and> b \<noteq> 0
            \<longrightarrow> row \<in> set kept"
    unfolding kept using isValid_numeric [of _ _ _ rt] by auto
  have 4: "fst (loadRawCSV rt (Complete data) s) =
           (if kept = []
            then Inl (Error ''No valid records found. Required columns: pickup_datetime, pickup_longitude, pickup_latitude'')
            else Inr kept)"
    using assms(1) by (simp add: loadRawCSV_complete kept)
  have 5: "loadRawCSV rt (Complete []) s =
           (Inl (Error ''CSV file is empty or could not be parsed''), s)"
    by (simp add: loadRawCSV_def)
  from 1 2 3 4 5 show ?thesis by blast
qed

lemma example_isValid:
  "isValid example_runtime row_friday_morning"
  "isValid example_runtime row_bad_timestamp"
  "\<not> isValid example_runtime row_no_longitude"
  by (simp_all add: isValid_def isNaN_def row_friday_morning_def row_bad_timestamp_def
      row_no_longitude_def float_eval)

lemma example_load:
  "loadRawCSV example_runtime
     (Complete [row_friday_morning, row_no_longitude, row_bad_timestamp]) new_processor =
   (Inr [row_friday_morning, row_bad_timestamp],
    new_processor\<lparr>rawData := Some [row_friday_morning, row_bad_timestamp]\<rparr>)"
  by (simp add: loadRawCSV_complete example_isValid)

theorem loadRawCSV_keeps_witness:
  "[row_friday_morning, row_no_longitude, row_bad_timestamp] \<noteq> []
   \<and> rawData (snd (loadRawCSV example_runtime
        (Complete [row_friday_morning, row_no_longitude, row_bad_timestamp]) new_processor)) =
       Some [row_friday_morning, row_bad_timestamp]
   \<and> fst (loadRawCSV example_runtime
        (Complete [row_friday_morning, row_no_longitude, row_bad_timestamp]) new_processor) =
       Inr [row_friday_morning, row_bad_timestamp]"
proof -
  have ne: "[row_friday_morning, row_no_longitude, row_bad_timestamp] \<noteq> []" by simp
  have kept: "rawData (snd (loadRawCSV example_runtime
        (Complete [row_friday_morning, row_no_longitude, row_bad_timestamp]) new_processor)) =
       Some [row_friday_morning, row_bad_timestamp]"
    by (simp add: example_load)
  from loadRawCSV_keeps [OF ne kept] ne kept show ?thesis by simp
qed

text \<open>
  The claim as it was written fails: a row whose timestamp is text that is no date is
  kept.
\<close>

theorem loadRawCSV_keeps_unparseable:
  "new_Date example_runtime (pickup_datetime row_bad_timestamp) = None
   \<and> fst (loadRawCSV example_runtime (Complete [row_bad_timestamp]) new_processor) =
       Inr [row_bad_timestamp]"
  by (simp add: loadRawCSV_complete example_isValid)
    (simp add: row_bad_timestamp_def example_runtime_def)

section \<open>Properties of trip processing\<close>

lemma process_trip_None: "process_trip rt regionSize row = None \<longleftrightarrow> new_Date rt (pickup_datetime row) = None"
  by (simp add: process_trip_def Let_def split: option.splits)

lemma process_trip_count:
  assumes "process_trip rt regionSize row = Some trip"
  shows "trip_passenger_count trip =
    (if truthy (passenger_count row) then passenger_count row else JNum (Fin 1))"
  using assms by (auto simp: process_trip_def Let_def split: option.splits)

lemma map_filter_as_map:
  "List.map_filter f xs = map (\<lambda>x. the (f x)) (filter (\<lambda>x. f x \<noteq> None) xs)"
  by (induction xs) (auto simp: List.map_filter_simps split: option.splits)

lemma processRawData_rows:
  assumes "rawData s = Some rows" and "rows \<noteq> []"
  shows "processRawData rt aggregationLevel regionSize s =
    (Inr (List.map_filter (process_trip rt regionSize) rows),
     s\<lparr>processedData := Some (List.map_filter (process_trip rt regionSize) rows)\<rparr>)"
  using assms by (simp add: processRawData_def Let_def)

lemma processRawData_Inr:
  assumes "fst (processRawData rt aggregationLevel regionSize s) = Inr trips"
  shows "\<exists>rows. rawData s = Some rows \<and> rows \<noteq> []
           \<and> trips = List.map_filter (process_trip rt regionSize) rows"
  using assms by (auto simp: processRawData_def Let_def split: option.splits if_splits)

lemma at_least_one_number: "1 \<le> a \<Longrightarrow> at_least_one rt (JNum (Fin a))"
  by (simp add: at_least_one_def)

text \<open>
  Claim C10. \<open>processRawData\<close> does not abort on a row whose timestamp is no valid
  date: with raw data loaded it returns normally, the rows whose timestamp converts
  yield one trip record each, in order, the other rows yield none, and the number of
  trip records is the number of rows whose timestamp converts.
\<close>

theorem processRawData_total:
  assumes "rawData s = Some rows" and "rows \<noteq> []"
  shows "\<exists>trips.
           processRawData rt aggregationLevel regionSize s =
             (Inr trips, s\<lparr>processedData := Some trips\<rparr>)
           \<and> trips = map (\<lambda>row. the (process_trip rt regionSize row))
                 (filter (\<lambda>row. new_Date rt (pickup_datetime row) \<noteq> None) rows)
           \<and> length trips =
               length (filter (\<lambda>row. new_Date rt (pickup_datetime row) \<noteq> None) rows)
           \<and> (\<forall>row \<in> set rows.
                 (new_Date rt (pickup_datetime row) = None
                    \<longrightarrow> process_trip rt regionSize row = None)
               \<and> (new_Date rt (pickup_datetime row) \<noteq> None
                    \<longrightarrow> (\<exists>trip. process_trip rt regionSize row = Some trip)))"
proof -
  let ?trips = "List.map_filter (process_trip rt regionSize) rows"
  have run: "processRawData rt aggregationLevel regionSize s =
      (Inr ?trips, s\<lparr>processedData := Some ?trips\<rparr>)"
    using assms by (rule processRawData_rows)
  have shape: "?trips = map (\<lambda>row. the (process_trip rt regionSize row))
      (filter (\<lambda>row. new_Date rt (pickup_datetime row) \<noteq> None) rows)"
    by (simp add: map_filter_as_map process_trip_None)
  have len: "length ?trips =
      length (filter (\<lambda>row. new_Date rt (pickup_datetime row) \<noteq> None) rows)"
    by (subst shape) simp
  have each: "\<forall>row \<in> set rows.
      (new_Date rt (pickup_datetime row) = None \<longrightarrow> process_trip rt regionSize row = None)
      \<and> (new_Date rt (pickup_datetime row) \<noteq> None
            \<longrightarrow> (\<exists>trip. process_trip rt regionSize row = Some trip))"
    by (auto simp: process_trip_def Let_def split: option.splits)
  from run shape len each show ?thesis by blast
qed

lemma example_dates:
  "new_Date example_runtime (pickup_datetime row_friday_morning) = Some 1425654900000"
  "new_Date example_runtime (pickup_datetime row_bad_timestamp) = None"
  "new_Date example_runtime (pickup_datetime row_negative_count) = Some 1425654900000"
  by (simp_all add: row_friday_morning_def row_bad_timestamp_def row_negative_count_def
      example_runtime_def)

theorem processRawData_total_witness:
  "rawData (new_processor\<lparr>rawData := Some [row_friday_morning, row_bad_timestamp]\<rparr>) =
     Some [row_friday_morning, row_bad_timestamp]
   \<and> [row_friday_morning, row_bad_timestamp] \<noteq> []
   \<and> (\<exists>trips.
        fst (processRawData example_runtime ''daily'' (to_double 0.05)
          (new_processor\<lparr>rawData := Some [row_friday_morning, row_bad_timestamp]\<rparr>)) = Inr trips
        \<and> length trips = 1)"
proof -
  let ?s = "new_processor\<lparr>rawData := Some [row_friday_morning, row_bad_timestamp]\<rparr>"
  have raw: "rawData ?s = Some [row_friday_morning, row_bad_timestamp]" by simp
  have ne: "[row_friday_morning, row_bad_timestamp] \<noteq> []" by simp
  from processRawData_total [OF raw ne, of example_runtime "''daily''" "to_double 0.05"]
  obtain trips where
    run: "processRawData example_runtime ''daily'' (to_double 0.05) ?s =
            (Inr trips, ?s\<lparr>processedData := Some trips\<rparr>)"
    and len: "length trips = length (filter
        (\<lambda>row. new_Date example_runtime (pickup_datetime row) \<noteq> None)
        [row_friday_morning, row_bad_timestamp])"
    by blast
  from len have "length trips = 1" by (simp add: example_dates)
  with run raw ne show ?thesis by simp
qed

text \<open>
  Claim C9, as the code has it. The passenger count of a trip record is the raw row's
  \<open>passenger_count\<close> when that is truthy and 1 otherwise; so it is at least 1 when the
  raw field is missing, empty or zero, or is a number that is at least 1. Nothing
  checks the raw value otherwise.
\<close>

theorem processRawData_passenger_count:
  assumes "fst (processRawData rt aggregationLevel regionSize s) = Inr trips"
    and "trip \<in> set trips"
  shows "\<exists>rows row. rawData s = Some rows \<and> row \<in> set rows
           \<and> process_trip rt regionSize row = Some trip
           \<and> trip_passenger_count trip =
               (if truthy (passenger_count row) then passenger_count row else JNum (Fin 1))
           \<and> (passenger_count row = JUndefined \<or> passenger_count row = JNull
                \<or> passenger_count row = JNum (Fin 0)
                \<or> (\<exists>a. 1 \<le> a \<and> passenger_count row = JNum (Fin a))
               \<longrightarrow> at_least_one rt (trip_passenger_count trip))"
proof -
  from assms(1) obtain rows where rows: "rawData s = Some rows"
    and trips: "trips = List.map_filter (process_trip rt regionSize) rows"
    using processRawData_Inr by blast
  from assms(2) trips obtain row where row: "row \<in> set rows"
    and made: "process_trip rt regionSize row = Some trip"
    by (auto simp: map_filter_as_map)
  note count = process_trip_count [OF made]
  have "at_least_one rt (trip_passenger_count trip)"
    if "passenger_count row = JUndefined \<or> passenger_count row = JNull
        \<or> passenger_count row = JNum (Fin 0)
        \<or> (\<exists>a. 1 \<le> a \<and> passenger_count row = JNum (Fin a))"
    using that count by (auto simp: at_least_one_def)
  with rows row made count show ?thesis by blast
qed

lemma example_negative_trip:
  "fst (processRawData example_runtime ''daily'' (to_double 0.05)
     (new_processor\<lparr>rawData := Some [row_negative_count]\<rparr>)) =
   Inr [the (process_trip example_runtime (to_double 0.05) row_negative_count)]"
  by (simp add: processRawData_rows List.map_filter_simps process_trip_def Let_def
      example_dates)

lemma example_negative_count:
  "trip_passenger_count (the (process_trip example_runtime (to_double 0.05) row_negative_count)) =
     JNum (Fin (- 2))"
  by (simp add: process_trip_def Let_def example_dates) (simp add: row_negative_count_def)

theorem processRawData_passenger_count_witness:
  "fst (processRawData example_runtime ''daily'' (to_double 0.05)
     (new_processor\<lparr>rawData := Some [row_negative_count]\<rparr>)) =
     Inr [the (process_trip example_runtime (to_double 0.05) row_negative_count)]
   \<and> the (process_trip example_runtime (to_double 0.05) row_negative_count)
       \<in> set [the (process_trip example_runtime (to_double 0.05) row_negative_count)]
   \<and> (\<exists>row. process_trip example_runtime (to_double 0.05) row =
         Some (the (process_trip example_runtime (to_double 0.05) row_negative_count)))"
proof -
  let ?trip = "the (process_trip example_runtime (to_double 0.05) row_negative_count)"
  have mem: "?trip \<in> set [?trip]" by simp
  from processRawData_passenger_count [OF example_negative_trip mem]
  have "\<exists>row. process_trip example_runtime (to_double 0.05) row = Some ?trip" by blast
  with example_negative_trip mem show ?thesis by blast
qed

text \<open>
  The claim as it was written fails: a raw passenger count of \<open>-2\<close> is truthy and is
  carried into the trip record as it is.
\<close>

theorem processRawData_count_below_one:
  "fst (processRawData example_runtime ''daily'' (to_double 0.05)
     (new_processor\<lparr>rawData := Some [row_negative_count]\<rparr>)) =
     Inr [the (process_trip example_runtime (to_double 0.05) row_negative_count)]
   \<and> trip_passenger_count (the (process_trip example_runtime (to_double 0.05) row_negative_count)) =
       JNum (Fin (- 2))
   \<and> \<not> at_least_one example_runtime
       (trip_passenger_count (the (process_trip example_runtime (to_double 0.05) row_negative_count)))"
  using example_negative_trip example_negative_count by (simp add: at_least_one_def)

section \<open>Properties of aggregation\<close>

lemma example_process:
  "processRawData example_runtime ''daily'' (to_double 0.05)
     (new_processor\<lparr>rawData := Some [row_friday_morning, row_friday_evening, row_saturday]\<rparr>) =
   (Inr example_trips,
    new_processor\<lparr>rawData := Some [row_friday_morning, row_friday_evening, row_saturday],
      processedData := Some example_trips\<rparr>)"
  by (simp add: processRawData_def Let_def List.map_filter_simps process_trip_def
      row_friday_morning_def row_friday_evening_def row_saturday_def example_runtime_def
      example_trips_def trip_friday_morning_def trip_friday_evening_def trip_saturday_def
      utc_day_def getHours_def getDay_def getMonth_def local_time_def msPerDay_def msPerHour_def
      getRegionId_def js_div_def show_int_def show_nat.simps digit_char_def float_eval)

lemma bucket_key_new_bucket: "bucket_key lvl (new_bucket t) = trip_key lvl t"
  by (simp add: bucket_key_def new_bucket_def trip_key_def)

lemma bucket_key_count_trip: "bucket_key lvl (count_trip rt t b) = bucket_key lvl b"
  by (simp add: bucket_key_def count_trip_def)

lemma demand_count_trip: "demand (count_trip rt t b) = demand b + 1"
  by (simp add: count_trip_def)

lemma demand_new_bucket: "demand (new_bucket t) = 0"
  by (simp add: new_bucket_def)

text \<open>The entries \<open>add_trip\<close> works on, and the update of the entry of one key.\<close>

lemma add_trip_unfold:
  "add_trip rt lvl g t =
     map (\<lambda>(k, b). if k = trip_key lvl t then (k, count_trip rt t b) else (k, b))
       (if trip_key lvl t \<in> fst ` set g then g else g @ [(trip_key lvl t, new_bucket t)])"
  by (auto simp: add_trip_def Let_def map_of_eq_None_iff)

lemma bump_keys:
  "map fst (map (\<lambda>(k, b). if k = key then (k, f b) else (k, b)) g) = map fst g"
  by (induction g) auto

lemma bump_sum:
  assumes "distinct (map fst g)" and "key \<in> fst ` set g"
  shows "sum_list (map (\<lambda>(k, b). demand b)
           (map (\<lambda>(k, b). if k = key then (k, count_trip rt t b) else (k, b)) g)) =
         sum_list (map (\<lambda>(k, b). demand b) g) + 1"
  using assms
proof (induction g)
  case Nil
  then show ?case by simp
next
  case (Cons e g)
  obtain k b where e: "e = (k, b)" by (cases e)
  show ?case
  proof (cases "k = key")
    case True
    with Cons.prems e have "key \<notin> fst ` set g" by auto
    then have "map (\<lambda>(k, b). if k = key then (k, count_trip rt t b) else (k, b)) g = g"
      by (induction g) auto
    with True e show ?thesis by (simp add: demand_count_trip)
  next
    case False
    with Cons.prems e have "distinct (map fst g)" "key \<in> fst ` set g" by auto
    with Cons.IH False e show ?thesis by simp
  qed
qed

lemma grouped_ok_empty: "grouped_ok lvl [] []"
  by (simp add: grouped_ok_def)

lemma grouped_ok_step:
  assumes "grouped_ok lvl g ts"
  shows "grouped_ok lvl (add_trip rt lvl g t) (ts @ [t])"
proof -
  let ?key = "trip_key lvl t"
  let ?g = "if ?key \<in> fst ` set g then g else g @ [(?key, new_bucket t)]"
  let ?bump = "\<lambda>(k, b). if k = ?key then (k, count_trip rt t b) else (k, b)"
  from assms have dist: "distinct (map fst g)"
    and keys: "fst ` set g = trip_key lvl ` set ts"
    and each: "\<And>k b. (k, b) \<in> set g \<Longrightarrow>
        bucket_key lvl b = k \<and> demand b = length (filter (\<lambda>t. trip_key lvl t = k) ts)"
    and total: "sum_list (map (\<lambda>(k, b). demand b) g) = length ts"
    by (auto simp: grouped_ok_def)
  have dist': "distinct (map fst ?g)" using dist by auto
  have mem': "?key \<in> fst ` set ?g" by auto
  have keys': "fst ` set ?g = trip_key lvl ` set (ts @ [t])" using keys by auto
  have each': "bucket_key lvl b = k \<and> demand b = length (filter (\<lambda>t. trip_key lvl t = k) ts)"
    if "(k, b) \<in> set ?g" for k b
  proof (cases "(k, b) \<in> set g")
    case True
    then show ?thesis by (rule each)
  next
    case False
    with that have new: "?key \<notin> fst ` set g" "k = ?key" "b = new_bucket t"
      by (auto split: if_splits)
    from new(1) keys have "\<forall>t' \<in> set ts. trip_key lvl t' \<noteq> ?key"
      by (metis imageI)
    then have "filter (\<lambda>t'. trip_key lvl t' = ?key) ts = []"
      by (simp add: filter_empty_conv)
    with new show ?thesis by (simp add: bucket_key_new_bucket demand_new_bucket)
  qed
  have total': "sum_list (map (\<lambda>(k, b). demand b) ?g) = length ts"
    using total by (simp add: demand_new_bucket)
  have result: "add_trip rt lvl g t = map ?bump ?g" by (rule add_trip_unfold)
  have 1: "distinct (map fst (map ?bump ?g))" using dist' by (simp only: bump_keys)
  have 2: "fst ` set (map ?bump ?g) = trip_key lvl ` set (ts @ [t])"
    using keys' bump_keys [of ?key "count_trip rt t" ?g] by (metis list.set_map)
  have 3: "\<forall>(k, b) \<in> set (map ?bump ?g).
      bucket_key lvl b = k \<and> demand b = length (filter (\<lambda>t. trip_key lvl t = k) (ts @ [t]))"
  proof -
    have "bucket_key lvl b' = k' \<and>
        demand b' = length (filter (\<lambda>t. trip_key lvl t = k') (ts @ [t]))"
      if "(k', b') \<in> set (map ?bump ?g)" for k' b'
    proof -
      from that obtain k b where kb: "(k, b) \<in> set ?g" and im: "(k', b') = ?bump (k, b)"
        by auto
      from each' [OF kb] im show ?thesis
        by (cases "k = ?key") (auto simp: bucket_key_count_trip demand_count_trip)
    qed
    then show ?thesis by blast
  qed
  have 4: "sum_list (map (\<lambda>(k, b). demand b) (map ?bump ?g)) = length (ts @ [t])"
    using bump_sum [OF dist' mem', of rt t] total' by simp
  from 1 2 3 4 show ?thesis unfolding result grouped_ok_def by blast
qed

lemma grouped_ok_foldl: "grouped_ok lvl (foldl (add_trip rt lvl) [] ts) ts"
proof (induction ts rule: rev_induct)
  case Nil
  show ?case by (simp add: grouped_ok_empty)
next
  case (snoc t ts)
  then show ?case by (simp add: grouped_ok_step)
qed

lemma sum_list_insort_key:
  fixes f :: "'a \<Rightarrow> nat"
  shows "sum_list (map f (insort_key k x xs)) = f x + sum_list (map f xs)"
  by (induction xs) auto

lemma sum_list_sort_key:
  fixes f :: "'a \<Rightarrow> nat"
  shows "sum_list (map f (sort_key k xs)) = sum_list (map f xs)"
  by (induction xs) (auto simp: sum_list_insort_key)

lemma length_filter_sort_key:
  "length (filter P (sort_key k xs)) = length (filter P xs)"
  by (simp add: filter_sort)

lemma distinct_count_one:
  assumes "distinct (map f xs)" and "x \<in> set xs"
  shows "length (filter (\<lambda>y. f y = f x) xs) = 1"
  using assms
proof (induction xs)
  case Nil
  then show ?case by simp
next
  case (Cons a xs)
  show ?case
  proof (cases "f a = f x")
    case True
    from Cons.prems(1) have "\<forall>y \<in> set xs. f y \<noteq> f a" by (metis distinct.simps(2) imageI list.simps(9) list.set_map)
    with True have "filter (\<lambda>y. f y = f x) xs = []"
      by (simp add: filter_empty_conv)
    with True show ?thesis by simp
  next
    case False
    with Cons show ?thesis by auto
  qed
qed

lemma aggregateData_run:
  assumes "processedData s = Some trips"
  shows "aggregateData rt lvl s =
    (Inr (sort_by_date (map snd (foldl (add_trip rt lvl) [] trips))),
     s\<lparr>aggregatedData := Some (sort_by_date (map snd (foldl (add_trip rt lvl) [] trips)))\<rparr>)"
  using assms by (simp add: aggregateData_def Let_def)

lemma aggregateData_Inr:
  assumes "fst (aggregateData rt lvl s) = Inr buckets"
  shows "\<exists>trips. processedData s = Some trips
           \<and> buckets = sort_by_date (map snd (foldl (add_trip rt lvl) [] trips))"
  using assms by (auto simp: aggregateData_def Let_def split: option.splits)

lemma grouped_keys_of_buckets:
  assumes "grouped_ok lvl g ts"
  shows "map (bucket_key lvl) (map snd g) = map fst g"
  using assms by (auto simp: grouped_ok_def)

text \<open>
  Claim C6. From the processed trip records \<open>aggregateData\<close> returns buckets such that
  the demand of each bucket is the number of trip records with that bucket's key, every
  trip record has its key on exactly one bucket, and the demands of all buckets add up
  to the number of trip records.
\<close>

theorem aggregateData_counts:
  assumes "processedData s = Some trips"
  shows "\<exists>buckets.
           aggregateData rt lvl s = (Inr buckets, s\<lparr>aggregatedData := Some buckets\<rparr>)
           \<and> (\<forall>b \<in> set buckets.
                demand b = length (filter (\<lambda>t. trip_key lvl t = bucket_key lvl b) trips))
           \<and> (\<forall>t \<in> set trips.
                length (filter (\<lambda>b. bucket_key lvl b = trip_key lvl t) buckets) = 1)
           \<and> sum_list (map demand buckets) = length trips"
proof -
  let ?g = "foldl (add_trip rt lvl) [] trips"
  let ?buckets = "sort_by_date (map snd ?g)"
  have ok: "grouped_ok lvl ?g trips" by (rule grouped_ok_foldl)
  have run: "aggregateData rt lvl s = (Inr ?buckets, s\<lparr>aggregatedData := Some ?buckets\<rparr>)"
    using assms by (rule aggregateData_run)
  have a: "\<forall>b \<in> set ?buckets.
      demand b = length (filter (\<lambda>t. trip_key lvl t = bucket_key lvl b) trips)"
    using ok by (auto simp: grouped_ok_def sort_by_date_def)
  have b: "\<forall>t \<in> set trips.
      length (filter (\<lambda>b. bucket_key lvl b = trip_key lvl t) ?buckets) = 1"
  proof
    fix t assume "t \<in> set trips"
    with ok have "trip_key lvl t \<in> fst ` set ?g" by (simp add: grouped_ok_def)
    then obtain b where b: "b \<in> set (map snd ?g)" and key: "bucket_key lvl b = trip_key lvl t"
      using ok by (force simp: grouped_ok_def)
    from ok have "distinct (map (bucket_key lvl) (map snd ?g))"
      by (simp only: grouped_keys_of_buckets) (simp add: grouped_ok_def)
    from distinct_count_one [OF this b] key
    show "length (filter (\<lambda>b. bucket_key lvl b = trip_key lvl t) ?buckets) = 1"
      by (simp add: sort_by_date_def length_filter_sort_key)
  qed
  have "sum_list (map demand (map snd ?g)) = sum_list (map (\<lambda>(k, b). demand b) ?g)"
    by (simp add: comp_def case_prod_unfold)
  with ok have c: "sum_list (map demand ?buckets) = length trips"
    by (simp add: sort_by_date_def sum_list_sort_key grouped_ok_def)
  from run a b c show ?thesis by blast
qed

theorem aggregateData_counts_witness:
  "processedData (new_processor\<lparr>processedData := Some example_trips\<rparr>) = Some example_trips
   \<and> (\<exists>buckets.
        fst (aggregateData example_runtime ''daily''
          (new_processor\<lparr>processedData := Some example_trips\<rparr>)) = Inr buckets
        \<and> sum_list (map demand buckets) = 3)"
proof -
  let ?s = "new_processor\<lparr>processedData := Some example_trips\<rparr>"
  have given: "processedData ?s = Some example_trips" by simp
  from aggregateData_counts [OF given, of example_runtime "''daily''"]
  obtain buckets where
    "aggregateData example_runtime ''daily'' ?s = (Inr buckets, ?s\<lparr>aggregatedData := Some buckets\<rparr>)"
    and "sum_list (map demand buckets) = length example_trips"
    by blast
  then have "fst (aggregateData example_runtime ''daily'' ?s) = Inr buckets
      \<and> sum_list (map demand buckets) = 3"
    by (simp add: example_trips_def)
  with given show ?thesis by blast
qed

section \<open>Properties of sequence construction\<close>

lemma example_aggregate_daily:
  "aggregateData example_runtime ''daily'' (new_processor\<lparr>processedData := Some example_trips\<rparr>) =
   (Inr [bucket_friday, bucket_saturday],
    new_processor\<lparr>processedData := Some example_trips,
      aggregatedData := Some [bucket_friday, bucket_saturday]\<rparr>)"
  by (simp add: aggregateData_def Let_def example_trips_def add_trip_def trip_key_def
      trip_friday_morning_def trip_friday_evening_def trip_saturday_def new_bucket_def
      count_trip_def js_plus_def js_add_def sort_by_date_def bucket_friday_def bucket_saturday_def
      float_eval)

lemma example_aggregate_hourly:
  "aggregateData example_runtime ''hourly'' (new_processor\<lparr>processedData := Some example_trips\<rparr>) =
   (Inr [bucket_friday_10, bucket_friday_17, bucket_saturday],
    new_processor\<lparr>processedData := Some example_trips,
      aggregatedData := Some [bucket_friday_10, bucket_friday_17, bucket_saturday]\<rparr>)"
  by (simp add: aggregateData_def Let_def example_trips_def add_trip_def trip_key_def
      trip_friday_morning_def trip_friday_evening_def trip_saturday_def new_bucket_def
      count_trip_def js_plus_def js_add_def sort_by_date_def bucket_friday_10_def
      bucket_friday_17_def bucket_saturday_def float_eval)

lemma unique_foldl:
  "set (foldl (\<lambda>acc x. if x \<in> set acc then acc else acc @ [x]) acc xs) = set acc \<union> set xs
   \<and> (distinct acc \<longrightarrow> distinct (foldl (\<lambda>acc x. if x \<in> set acc then acc else acc @ [x]) acc xs))"
  by (induction xs arbitrary: acc) auto

lemma set_unique: "set (unique xs) = set xs"
  using unique_foldl [of "[]" xs] by (simp add: unique_def)

lemma distinct_unique: "distinct (unique xs)"
  using unique_foldl [of "[]" xs] by (simp add: unique_def)

lemma set_regionData_of: "set (regionData_of aggregated r) = {b \<in> set aggregated. region b = r}"
  by (auto simp: regionData_of_def sort_by_date_def)

lemma length_regionData_of:
  "length (regionData_of aggregated r) = length (filter (\<lambda>b. region b = r) aggregated)"
  by (simp add: regionData_of_def sort_by_date_def)

lemma sorted_regionData_of: "sorted (map date (regionData_of aggregated r))"
  by (simp add: regionData_of_def sort_by_date_def)

lemma map_nth_upt: "b \<le> length xs \<Longrightarrow> map (\<lambda>j. xs ! j) [a..<b] = take (b - a) (drop a xs)"
  by (rule nth_equalityI) auto

lemma window_of_slice:
  assumes "len \<le> i" and "i \<le> length rd"
  shows "window_of rd len i = take len (drop (i - len) rd)"
  using assms by (simp add: window_of_def map_nth_upt)

lemma length_region_samples:
  "length (region_samples len rd) = (if length rd < len + 1 then 0 else length rd - len)"
  by (simp add: region_samples_def)

lemma nth_region_samples:
  assumes "k < length rd - len"
  shows "region_samples len rd ! k = (take len (drop k rd), rd ! (k + len))"
proof -
  from assms have "\<not> length rd \<le> len" by simp
  with assms show ?thesis
    by (simp add: region_samples_def window_of_slice add.commute)
qed

lemma region_samples_members:
  assumes "(w, t) \<in> set (region_samples len rd)"
  shows "\<exists>i. len \<le> i \<and> i < length rd \<and> w = window_of rd len i \<and> t = rd ! i"
  using assms by (auto simp: region_samples_def split: if_splits)

lemma last_window_of:
  assumes "0 < len" and "len \<le> i" and "i < length rd"
  shows "last (window_of rd len i) = rd ! (i - 1)"
proof -
  from assms have "[i - len..<i] \<noteq> []" by simp
  then have "last (window_of rd len i) = rd ! last [i - len..<i]"
    unfolding window_of_def by (rule last_map)
  also from assms have "last [i - len..<i] = i - 1"
    by (cases i) auto
  finally show ?thesis .
qed

lemma set_window_of:
  assumes "len \<le> i" and "i < length rd" and "b \<in> set (window_of rd len i)"
  shows "\<exists>j < i. b = rd ! j"
  using assms by (auto simp: window_of_def)

lemma example_regionData_daily:
  "regionData_of [bucket_friday, bucket_saturday] ''region_-1480_815'' =
     [bucket_friday, bucket_saturday]"
  by (simp add: regionData_of_def sort_by_date_def bucket_friday_def bucket_saturday_def)

lemma example_regionData_hourly:
  "regionData_of [bucket_friday_10, bucket_friday_17, bucket_saturday] ''region_-1480_815'' =
     [bucket_friday_10, bucket_friday_17, bucket_saturday]"
  by (simp add: regionData_of_def sort_by_date_def bucket_friday_10_def bucket_friday_17_def
      bucket_saturday_def)

lemma example_region:
  "region bucket_friday = ''region_-1480_815''"
  "region bucket_friday_10 = ''region_-1480_815''"
  "region bucket_friday_17 = ''region_-1480_815''"
  "region bucket_saturday = ''region_-1480_815''"
  by (simp_all add: bucket_friday_def bucket_friday_10_def bucket_friday_17_def
      bucket_saturday_def)

lemma example_regions:
  "unique (map region [bucket_friday, bucket_saturday]) = [''region_-1480_815'']"
  "unique (map region [bucket_friday_10, bucket_friday_17, bucket_saturday]) =
     [''region_-1480_815'']"
  by (simp_all add: unique_def example_region)

lemma example_samples_daily:
  "sequence_samples (Suc 0) [bucket_friday, bucket_saturday] =
     [([bucket_friday], bucket_saturday)]"
  unfolding sequence_samples_def example_regions
  by (simp add: example_regionData_daily region_samples_def window_of_def)

lemma example_samples_hourly:
  "sequence_samples (Suc 0) [bucket_friday_10, bucket_friday_17, bucket_saturday] =
     [([bucket_friday_10], bucket_friday_17), ([bucket_friday_17], bucket_saturday)]"
proof -
  have "[Suc 0..<3] = [Suc 0, 2]" by (simp add: upt_rec)
  then show ?thesis
    unfolding sequence_samples_def example_regions
    by (simp add: example_regionData_hourly region_samples_def window_of_def)
qed

lemma example_createSequences:
  "createSequences example_runtime 1
     (new_processor\<lparr>aggregatedData := Some [bucket_friday, bucket_saturday]\<rparr>) =
   (Inr example_sequences,
    new_processor\<lparr>aggregatedData := Some [bucket_friday, bucket_saturday],
      sequences := Some example_sequences\<rparr>)"
proof -
  have fv: "featureVector example_runtime bucket_friday =
      [Fin 2, Fin (7505999378950827 / 9007199254740992), Fin 0, Fin (3 / 2)]"
    by (simp add: featureVector_def bucket_friday_def js_div_def float_eval)
  have tgt: "demand bucket_saturday = 1" "date bucket_saturday = 16501"
    by (simp_all add: bucket_saturday_def)
  show ?thesis
    unfolding createSequences_def
    by (simp add: Let_def example_samples_daily tensor3d_of_def tensor1d_of_def fv tgt
        fround_def float_eval example_sequences_def example_region unique_def)
qed

lemma example_createSequences_hourly:
  "createSequences example_runtime 1
     (new_processor\<lparr>aggregatedData := Some [bucket_friday_10, bucket_friday_17, bucket_saturday]\<rparr>) =
   (Inr example_sequences_hourly,
    new_processor\<lparr>aggregatedData := Some [bucket_friday_10, bucket_friday_17, bucket_saturday],
      sequences := Some example_sequences_hourly\<rparr>)"
proof -
  have fv: "featureVector example_runtime bucket_friday_10 =
      [Fin 1, Fin (7505999378950827 / 9007199254740992), Fin 0, Fin 2]"
    "featureVector example_runtime bucket_friday_17 =
      [Fin 1, Fin (7505999378950827 / 9007199254740992), Fin 0, Fin 1]"
    by (simp_all add: featureVector_def bucket_friday_10_def bucket_friday_17_def js_div_def
        float_eval)
  have tgt: "demand bucket_saturday = 1" "date bucket_saturday = 16501"
    "demand bucket_friday_17 = 1" "date bucket_friday_17 = 16500"
    by (simp_all add: bucket_saturday_def bucket_friday_17_def)
  show ?thesis
    unfolding createSequences_def
    by (simp add: Let_def example_samples_hourly tensor3d_of_def tensor1d_of_def fv tgt
        fround_def float_eval example_sequences_hourly_def example_region unique_def)
qed

lemma tensor3d_of_Inr:
  assumes "tensor3d_of vs = Inr t"
  shows "values3 t = map (map (map fround)) vs" and "vs \<noteq> []" and "hd vs \<noteq> []"
    and "shape t = (length vs, length (hd vs), length (hd (hd vs)))"
  using assms by (auto simp: tensor3d_of_def split: list.splits if_splits)

lemma createSequences_Inr:
  assumes "fst (createSequences rt len s) = Inr sq"
  shows "\<exists>aggregated. aggregatedData s = Some aggregated \<and> aggregated \<noteq> []
           \<and> values3 (features sq) =
               map (\<lambda>(w, t). map (\<lambda>b. map fround (featureVector rt b)) w)
                 (sequence_samples len aggregated)
           \<and> targets sq =
               map (\<lambda>(w, t). fround (Fin (real (demand t)))) (sequence_samples len aggregated)
           \<and> dates sq = map (\<lambda>(w, t). (date t, region t)) (sequence_samples len aggregated)
           \<and> regions sq = unique (map region aggregated)"
  using assms
  by (auto simp: createSequences_def Let_def tensor1d_of_def split_def comp_def
      dest: tensor3d_of_Inr(1) split: option.splits if_splits sum.splits)

lemma concat_map_map: "map f (concat (map g xs)) = concat (map (\<lambda>x. map f (g x)) xs)"
  by (induction xs) auto



section \<open>No look-ahead in the windows\<close>

lemma distinct_map_insort_key:
  "distinct (map f (insort_key k x xs)) \<longleftrightarrow> f x \<notin> f ` set xs \<and> distinct (map f xs)"
  by (induction xs) (auto simp: set_insort_key)

lemma distinct_map_sort_key: "distinct (map f (sort_key k xs)) \<longleftrightarrow> distinct (map f xs)"
  by (induction xs) (auto simp: distinct_map_insort_key)

lemma distinct_under_map: "distinct (map g ys) \<Longrightarrow> distinct ys"
  by (induction ys) auto

lemma aggregated_distinct_keys:
  assumes "fst (aggregateData rt lvl s) = Inr aggregated"
  shows "distinct (map (bucket_key lvl) aggregated)"
proof -
  from aggregateData_Inr [OF assms] obtain trips where
    agg: "aggregated = sort_by_date (map snd (foldl (add_trip rt lvl) [] trips))"
    by blast
  have ok: "grouped_ok lvl (foldl (add_trip rt lvl) [] trips) trips"
    by (rule grouped_ok_foldl)
  then have "distinct (map (bucket_key lvl) (map snd (foldl (add_trip rt lvl) [] trips)))"
    by (simp only: grouped_keys_of_buckets) (simp add: grouped_ok_def)
  then show ?thesis
    unfolding agg sort_by_date_def by (simp only: distinct_map_sort_key)
qed

lemma daily_dates_distinct:
  assumes "distinct (map (bucket_key ''daily'') aggregated)"
  shows "distinct (map date (regionData_of aggregated r))"
proof -
  let ?ys = "filter (\<lambda>b. region b = r) aggregated"
  from assms have "distinct (map (bucket_key ''daily'') ?ys)"
    by (rule distinct_map_filter)
  moreover have "map (bucket_key ''daily'') ?ys = map (\<lambda>d. (d, None, r)) (map date ?ys)"
    by (simp add: bucket_key_def)
  ultimately have "distinct (map (\<lambda>d. (d, None :: nat option, r)) (map date ?ys))"
    by simp
  then have "distinct (map date ?ys)" by (rule distinct_under_map)
  then show ?thesis
    unfolding regionData_of_def sort_by_date_def by (simp only: distinct_map_sort_key)
qed

lemma sorted_dates_nth:
  assumes "sorted (map date rd)" and "j < i" and "i < length rd"
  shows "date (rd ! j) \<le> date (rd ! i)"
  using sorted_nth_mono [OF assms(1), of j i] assms(2,3) by simp

lemma strict_dates_nth:
  assumes "sorted (map date rd)" and "distinct (map date rd)" and "j < i" and "i < length rd"
  shows "date (rd ! j) < date (rd ! i)"
proof -
  from assms(1,2) have "sorted_wrt (<) (map date rd)"
    by (simp add: strict_sorted_iff)
  from sorted_wrt_nth_less [OF this, of j i] assms(3,4) show ?thesis by simp
qed

lemma sequence_samples_members:
  assumes "(w, t) \<in> set (sequence_samples len aggregated)"
  shows "\<exists>r i. r \<in> region ` set aggregated \<and> len \<le> i
           \<and> i < length (regionData_of aggregated r)
           \<and> w = window_of (regionData_of aggregated r) len i
           \<and> t = regionData_of aggregated r ! i"
proof -
  from assms obtain r where r: "r \<in> set (unique (map region aggregated))"
    and mem: "(w, t) \<in> set (region_samples len (regionData_of aggregated r))"
    by (auto simp: sequence_samples_def)
  from region_samples_members [OF mem] r show ?thesis
    by (auto simp: set_unique)
qed

lemma regionData_of_region:
  assumes "i < length (regionData_of aggregated r)"
  shows "region (regionData_of aggregated r ! i) = r"
proof -
  from assms have "regionData_of aggregated r ! i \<in> set (regionData_of aggregated r)"
    by simp
  then show ?thesis by (simp add: set_regionData_of)
qed

text \<open>
  Claim C1, as the code has it. Take the buckets that \<open>aggregateData\<close> returns and any
  sample that \<open>createSequences\<close> builds from them. Every bucket of the sample's window
  is of the target's region and its date is not after the target's date; under daily
  aggregation its date is strictly before the target's date. This holds in particular
  of the last bucket of the window. The dates and the feature windows that
  \<open>createSequences\<close> returns are those of these samples, the feature vectors stored
  as 32-bit floats.
\<close>

theorem createSequences_no_lookahead:
  assumes "fst (aggregateData rt lvl s) = Inr aggregated"
    and "(w, t) \<in> set (sequence_samples len aggregated)"
  shows "(\<forall>b \<in> set w. region b = region t \<and> date b \<le> date t
            \<and> (lvl = ''daily'' \<longrightarrow> date b < date t))
       \<and> (w \<noteq> [] \<longrightarrow> date (last w) \<le> date t
            \<and> (lvl = ''daily'' \<longrightarrow> date (last w) < date t))
       \<and> (\<forall>sq. fst (createSequences rt len (snd (aggregateData rt lvl s))) = Inr sq \<longrightarrow>
            dates sq = map (\<lambda>(w, t). (date t, region t)) (sequence_samples len aggregated)
            \<and> values3 (features sq) =
                map (\<lambda>(w, t). map (\<lambda>b. map fround (featureVector rt b)) w)
                  (sequence_samples len aggregated))"
proof -
  from sequence_samples_members [OF assms(2)] obtain r i where
    i: "len \<le> i" "i < length (regionData_of aggregated r)"
    and w: "w = window_of (regionData_of aggregated r) len i"
    and t: "t = regionData_of aggregated r ! i"
    by blast
  let ?rd = "regionData_of aggregated r"
  have sorted: "sorted (map date ?rd)" by (rule sorted_regionData_of)
  have each: "region b = region t \<and> date b \<le> date t \<and> (lvl = ''daily'' \<longrightarrow> date b < date t)"
    if "b \<in> set w" for b
  proof -
    from that w i obtain j where j: "j < i" "b = ?rd ! j"
      using set_window_of [of len i ?rd b] by blast
    from j i have "region b = region t"
      by (simp add: t regionData_of_region)
    moreover from j i have "date b \<le> date t"
      by (simp add: t sorted_dates_nth [OF sorted])
    moreover have "date b < date t" if "lvl = ''daily''"
    proof -
      from that aggregated_distinct_keys [OF assms(1)]
      have "distinct (map date ?rd)" by (simp add: daily_dates_distinct)
      with j i show ?thesis by (simp add: t strict_dates_nth [OF sorted])
    qed
    ultimately show ?thesis by blast
  qed
  have lastw: "date (last w) \<le> date t \<and> (lvl = ''daily'' \<longrightarrow> date (last w) < date t)"
    if "w \<noteq> []"
    using each [of "last w"] that by simp
  have made: "dates sq = map (\<lambda>(w, t). (date t, region t)) (sequence_samples len aggregated)
      \<and> values3 (features sq) =
          map (\<lambda>(w, t). map (\<lambda>b. map fround (featureVector rt b)) w)
            (sequence_samples len aggregated)"
    if "fst (createSequences rt len (snd (aggregateData rt lvl s))) = Inr sq" for sq
  proof -
    from aggregateData_Inr [OF assms(1)] obtain trips
      where "processedData s = Some trips" by blast
    from aggregateData_run [OF this, of rt lvl] assms(1)
    have "aggregatedData (snd (aggregateData rt lvl s)) = Some aggregated" by simp
    with createSequences_Inr [OF that] show ?thesis by auto
  qed
  from each lastw made show ?thesis by blast
qed

theorem createSequences_no_lookahead_witness:
  "fst (aggregateData example_runtime ''daily''
     (new_processor\<lparr>processedData := Some example_trips\<rparr>)) =
     Inr [bucket_friday, bucket_saturday]
   \<and> ([bucket_friday], bucket_saturday)
       \<in> set (sequence_samples 1 [bucket_friday, bucket_saturday])
   \<and> date (last [bucket_friday]) < date bucket_saturday"
proof -
  have agg: "fst (aggregateData example_runtime ''daily''
     (new_processor\<lparr>processedData := Some example_trips\<rparr>)) =
     Inr [bucket_friday, bucket_saturday]"
    by (simp only: example_aggregate_daily fst_conv)
  have mem: "([bucket_friday], bucket_saturday)
      \<in> set (sequence_samples 1 [bucket_friday, bucket_saturday])"
    by (simp add: example_samples_daily)
  from createSequences_no_lookahead [OF agg mem]
  have "date (last [bucket_friday]) < date bucket_saturday" by blast
  with agg mem show ?thesis by blast
qed

text \<open>
  The claim as it was written fails under hourly aggregation: two buckets of one day
  and one region are neighbours in the region's series, and the sample whose target is
  the second has the first as the last bucket of its window, on the same date.
\<close>

theorem createSequences_same_date_hourly:
  "fst (aggregateData example_runtime ''hourly''
     (new_processor\<lparr>processedData := Some example_trips\<rparr>)) =
     Inr [bucket_friday_10, bucket_friday_17, bucket_saturday]
   \<and> fst (createSequences example_runtime 1
       (new_processor\<lparr>aggregatedData :=
          Some [bucket_friday_10, bucket_friday_17, bucket_saturday]\<rparr>)) =
     Inr example_sequences_hourly
   \<and> sequence_samples 1 [bucket_friday_10, bucket_friday_17, bucket_saturday] =
       [([bucket_friday_10], bucket_friday_17), ([bucket_friday_17], bucket_saturday)]
   \<and> date (last [bucket_friday_10]) = 16500
   \<and> date bucket_friday_17 = 16500
   \<and> \<not> date (last [bucket_friday_10]) < date bucket_friday_17"
proof -
  have 1: "fst (aggregateData example_runtime ''hourly''
     (new_processor\<lparr>processedData := Some example_trips\<rparr>)) =
     Inr [bucket_friday_10, bucket_friday_17, bucket_saturday]"
    by (simp only: example_aggregate_hourly fst_conv)
  have 2: "fst (createSequences example_runtime 1
       (new_processor\<lparr>aggregatedData :=
          Some [bucket_friday_10, bucket_friday_17, bucket_saturday]\<rparr>)) =
     Inr example_sequences_hourly"
    by (simp only: example_createSequences_hourly fst_conv)
  have 3: "sequence_samples 1 [bucket_friday_10, bucket_friday_17, bucket_saturday] =
       [([bucket_friday_10], bucket_friday_17), ([bucket_friday_17], bucket_saturday)]"
    by (simp add: example_samples_hourly)
  have 4: "date (last [bucket_friday_10]) = 16500" "date bucket_friday_17 = 16500"
    by (simp_all add: bucket_friday_10_def bucket_friday_17_def)
  from 1 2 3 4 show ?thesis by simp
qed

section \<open>Properties of the scaler\<close>

lemma reduce_min_step:
  "foldl (\<lambda>m v. if v = NaN \<or> num_less v m then v else m) (Fin m) (map Fin xs) =
     Fin (Min (insert m (set xs)))"
proof (induction xs arbitrary: m)
  case Nil
  show ?case by simp
next
  case (Cons x xs)
  show ?case
  proof (cases "x < m")
    case True
    have "Min (insert x (set xs)) \<le> x" by (rule Min_le) simp_all
    with True have le: "Min (insert x (set xs)) \<le> m" by linarith
    have "Min (insert m (insert x (set xs))) = min m (Min (insert x (set xs)))"
      by (rule Min_insert) simp_all
    also from le have "\<dots> = Min (insert x (set xs))" by (rule min_absorb2)
    finally have "Min (insert m (set (x # xs))) = Min (insert x (set xs))" by simp
    moreover from True have
      "foldl (\<lambda>m v. if v = NaN \<or> num_less v m then v else m) (Fin m) (map Fin (x # xs)) =
       foldl (\<lambda>m v. if v = NaN \<or> num_less v m then v else m) (Fin x) (map Fin xs)"
      by simp
    ultimately show ?thesis by (simp only: Cons.IH)
  next
    case False
    have "Min (insert m (set xs)) \<le> m" by (rule Min_le) simp_all
    with False have le: "Min (insert m (set xs)) \<le> x" by linarith
    have "insert m (set (x # xs)) = insert x (insert m (set xs))" by auto
    then have "Min (insert m (set (x # xs))) = Min (insert x (insert m (set xs)))"
      by (simp only:)
    also have "\<dots> = min x (Min (insert m (set xs)))"
      by (rule Min_insert) simp_all
    also from le have "\<dots> = Min (insert m (set xs))" by (rule min_absorb2)
    finally have "Min (insert m (set (x # xs))) = Min (insert m (set xs))" .
    moreover from False have
      "foldl (\<lambda>m v. if v = NaN \<or> num_less v m then v else m) (Fin m) (map Fin (x # xs)) =
       foldl (\<lambda>m v. if v = NaN \<or> num_less v m then v else m) (Fin m) (map Fin xs)"
      by simp
    ultimately show ?thesis by (simp only: Cons.IH)
  qed
qed

lemma reduce_max_step:
  "foldl (\<lambda>m v. if v = NaN \<or> num_less m v then v else m) (Fin m) (map Fin xs) =
     Fin (Max (insert m (set xs)))"
proof (induction xs arbitrary: m)
  case Nil
  show ?case by simp
next
  case (Cons x xs)
  show ?case
  proof (cases "m < x")
    case True
    have "x \<le> Max (insert x (set xs))" by (rule Max_ge) simp_all
    with True have le: "m \<le> Max (insert x (set xs))" by linarith
    have "Max (insert m (insert x (set xs))) = max m (Max (insert x (set xs)))"
      by (rule Max_insert) simp_all
    also from le have "\<dots> = Max (insert x (set xs))" by (rule max_absorb2)
    finally have "Max (insert m (set (x # xs))) = Max (insert x (set xs))" by simp
    moreover from True have
      "foldl (\<lambda>m v. if v = NaN \<or> num_less m v then v else m) (Fin m) (map Fin (x # xs)) =
       foldl (\<lambda>m v. if v = NaN \<or> num_less m v then v else m) (Fin x) (map Fin xs)"
      by simp
    ultimately show ?thesis by (simp only: Cons.IH)
  next
    case False
    have "m \<le> Max (insert m (set xs))" by (rule Max_ge) simp_all
    with False have le: "x \<le> Max (insert m (set xs))" by linarith
    have "insert m (set (x # xs)) = insert x (insert m (set xs))" by auto
    then have "Max (insert m (set (x # xs))) = Max (insert x (insert m (set xs)))"
      by (simp only:)
    also have "\<dots> = max x (Max (insert m (set xs)))"
      by (rule Max_insert) simp_all
    also from le have "\<dots> = Max (insert m (set xs))" by (rule max_absorb2)
    finally have "Max (insert m (set (x # xs))) = Max (insert m (set xs))" .
    moreover from False have
      "foldl (\<lambda>m v. if v = NaN \<or> num_less m v then v else m) (Fin m) (map Fin (x # xs)) =
       foldl (\<lambda>m v. if v = NaN \<or> num_less m v then v else m) (Fin m) (map Fin xs)"
      by simp
    ultimately show ?thesis by (simp only: Cons.IH)
  qed
qed

lemma reduce_min_finite: "rs \<noteq> [] \<Longrightarrow> reduce_min (map Fin rs) = Fin (Min (set rs))"
  by (cases rs) (simp_all add: reduce_min_step)

lemma reduce_max_finite: "rs \<noteq> [] \<Longrightarrow> reduce_max (map Fin rs) = Fin (Max (set rs))"
  by (cases rs) (simp_all add: reduce_max_step)

lemma f32_finite:
  "f32_sub (Fin a) (Fin b) = to_float32 (a - b)"
  "f32_add (Fin a) (Fin b) = to_float32 (a + b)"
  "f32_mul (Fin a) (Fin b) = to_float32 (a * b)"
  "b \<noteq> 0 \<Longrightarrow> f32_div (Fin a) (Fin b) = to_float32 (a / b)"
  by (simp_all add: f32_sub_def f32_add_def f32_mul_def f32_div_def num_sub_def)

lemma to_float32_one: "to_float32 1 = Fin 1"
  by (simp add: float_eval)

lemma to_float32_zero: "to_float32 0 = Fin 0"
  by (simp add: to_float32_def)

lemma example_scaler:
  "createScaler [Fin 2, Fin 4, Fin 6, Fin 8] = \<lparr>scaler_min = Fin 2, scaler_max = Fin 8\<rparr>"
  by (simp add: createScaler_def)

lemma example_scaler_values:
  "normalize \<lparr>scaler_min = Fin 2, scaler_max = Fin 8\<rparr> (Fin 4) = Fin (11184811 / 33554432)"
  "fround (Fin 0.333) = Fin (5586813 / 16777216)"
  "denormalize \<lparr>scaler_min = Fin 2, scaler_max = Fin 8\<rparr> (Fin (5586813 / 16777216)) =
     Fin (4192207 / 1048576)"
  by (simp_all add: normalize_def denormalize_def fround_def f32_finite float_eval)

lemma wide_scaler_values:
  "createScaler [Fin 0, Fin 18, Fin 35] = \<lparr>scaler_min = Fin 0, scaler_max = Fin 35\<rparr>"
  "to_float32 0 = Fin 0" "to_float32 18 = Fin 18" "to_float32 35 = Fin 35"
  "normalize \<lparr>scaler_min = Fin 0, scaler_max = Fin 35\<rparr> (Fin 18) = Fin (8628283 / 16777216)"
  "denormalize \<lparr>scaler_min = Fin 0, scaler_max = Fin 35\<rparr> (Fin (8628283 / 16777216)) =
     Fin (9437185 / 524288)"
  by (simp_all add: createScaler_def normalize_def denormalize_def f32_finite float_eval)

text \<open>
  Claim C3, as the code has it. The tensors hold 32-bit floats and every operation of
  \<open>normalize\<close> and \<open>denormalize\<close> rounds to one. A scaler fitted on an array of finite
  numbers holds its least and its greatest element as \<open>min\<close> and \<open>max\<close>; \<open>normalize\<close> is
  \<open>(x - min) / (max - min)\<close> and \<open>denormalize\<close> is \<open>x * (max - min) + min\<close>, each
  operation rounded. When the elements are within \<open>2^100\<close> in magnitude and \<open>max - min\<close>
  is at least \<open>2^-100\<close>, every element of the array is normalised to its exact image
  within \<open>2^-20\<close> and comes back within \<open>(|x| + max - min) / 2^21\<close>, which is within
  \<open>1e-6\<close> when \<open>|x| + max - min\<close> is at most 2; \<open>min\<close> is sent to 0 and \<open>max\<close> to 1
  exactly. Fitted on \<open>[2, 4, 6, 8]\<close> the scaler has \<open>min = 2\<close> and \<open>max = 8\<close>, sends 4 to
  the float nearest to a third, which is 0.333 within a thousandth, and takes the float
  nearest to 0.333 back to a float that is 4.0 within a hundredth.
\<close>

theorem createScaler_rounded:
  assumes "rs \<noteq> []" and "Min (set rs) < Max (set rs)"
    and "- (2 ^ 100) \<le> Min (set rs)" and "Max (set rs) \<le> 2 ^ 100"
    and "1 / 2 ^ 100 \<le> Max (set rs) - Min (set rs)"
  shows "createScaler (map Fin rs) =
           \<lparr>scaler_min = Fin (Min (set rs)), scaler_max = Fin (Max (set rs))\<rparr>
       \<and> (\<forall>v. normalize (createScaler (map Fin rs)) v =
              f32_div (f32_sub v (Fin (Min (set rs))))
                (f32_sub (Fin (Max (set rs))) (Fin (Min (set rs)))))
       \<and> (\<forall>v. denormalize (createScaler (map Fin rs)) v =
              f32_add (f32_mul v (f32_sub (Fin (Max (set rs))) (Fin (Min (set rs)))))
                (Fin (Min (set rs))))
       \<and> (\<forall>a b. f32_sub (Fin a) (Fin b) = to_float32 (a - b)
              \<and> f32_add (Fin a) (Fin b) = to_float32 (a + b)
              \<and> f32_mul (Fin a) (Fin b) = to_float32 (a * b)
              \<and> (b \<noteq> 0 \<longrightarrow> f32_div (Fin a) (Fin b) = to_float32 (a / b)))
       \<and> (\<forall>x \<in> set rs. \<exists>q z.
              normalize (createScaler (map Fin rs)) (Fin x) = Fin q
              \<and> \<bar>q - (x - Min (set rs)) / (Max (set rs) - Min (set rs))\<bar> \<le> 1 / 2 ^ 20
              \<and> denormalize (createScaler (map Fin rs)) (Fin q) = Fin z
              \<and> \<bar>z - x\<bar> \<le> (\<bar>x\<bar> + (Max (set rs) - Min (set rs))) / 2 ^ 21)
       \<and> (\<forall>x \<in> set rs. \<bar>x\<bar> + (Max (set rs) - Min (set rs)) \<le> 2 \<longrightarrow>
              close_to (1 / 10 ^ 6)
                (denormalize (createScaler (map Fin rs))
                  (normalize (createScaler (map Fin rs)) (Fin x))) (Fin x))
       \<and> normalize (createScaler (map Fin rs)) (Fin (Min (set rs))) = Fin 0
       \<and> normalize (createScaler (map Fin rs)) (Fin (Max (set rs))) = Fin 1
       \<and> createScaler [Fin 2, Fin 4, Fin 6, Fin 8] = \<lparr>scaler_min = Fin 2, scaler_max = Fin 8\<rparr>
       \<and> normalize (createScaler [Fin 2, Fin 4, Fin 6, Fin 8]) (Fin 4) =
           Fin (11184811 / 33554432)
       \<and> close_to (1 / 1000) (normalize (createScaler [Fin 2, Fin 4, Fin 6, Fin 8]) (Fin 4))
            (Fin 0.333)
       \<and> denormalize (createScaler [Fin 2, Fin 4, Fin 6, Fin 8]) (fround (Fin 0.333)) =
           Fin (4192207 / 1048576)
       \<and> close_to (1 / 100)
            (denormalize (createScaler [Fin 2, Fin 4, Fin 6, Fin 8]) (fround (Fin 0.333)))
            (Fin 4.0)"
proof -
  define lo hi where "lo = Min (set rs)" and "hi = Max (set rs)"
  define sc where "sc = createScaler (map Fin rs)"
  have sc: "sc = \<lparr>scaler_min = Fin lo, scaler_max = Fin hi\<rparr>"
    using assms(1) by (simp add: sc_def lo_def hi_def createScaler_def reduce_min_finite
        reduce_max_finite)
  have n: "normalize sc v = f32_div (f32_sub v (Fin lo)) (f32_sub (Fin hi) (Fin lo))" for v
    by (simp add: sc normalize_def)
  have d: "denormalize sc v = f32_add (f32_mul v (f32_sub (Fin hi) (Fin lo))) (Fin lo)" for v
    by (simp add: sc denormalize_def)
  have ops: "f32_sub (Fin a) (Fin b) = to_float32 (a - b)
      \<and> f32_add (Fin a) (Fin b) = to_float32 (a + b)
      \<and> f32_mul (Fin a) (Fin b) = to_float32 (a * b)
      \<and> (b \<noteq> 0 \<longrightarrow> f32_div (Fin a) (Fin b) = to_float32 (a / b))" for a b
    by (simp add: f32_finite)
  have bounds: "\<bar>lo\<bar> \<le> 2 ^ 100" "\<bar>hi\<bar> \<le> 2 ^ 100" "1 / 2 ^ 100 \<le> hi - lo"
    using assms(2-5) by (simp_all add: lo_def hi_def abs_le_iff)
  have between: "lo \<le> x \<and> x \<le> hi" if "x \<in> set rs" for x
    using that by (simp add: lo_def hi_def)
  have trip: "\<exists>q z. normalize sc (Fin x) = Fin q
      \<and> \<bar>q - (x - lo) / (hi - lo)\<bar> \<le> 1 / 2 ^ 20
      \<and> denormalize sc (Fin q) = Fin z
      \<and> \<bar>z - x\<bar> \<le> (\<bar>x\<bar> + (hi - lo)) / 2 ^ 21" if "lo \<le> x \<and> x \<le> hi" for x
  proof -
    from that have "lo \<le> x" "x \<le> hi" by simp_all
    from round_trip_error [OF this bounds] obtain d' s q p z where
      r: "to_float32 (hi - lo) = Fin d'" "0 < d'" "to_float32 (x - lo) = Fin s"
        "to_float32 (s / d') = Fin q" "to_float32 (q * d') = Fin p" "to_float32 (p + lo) = Fin z"
        "\<bar>q - (x - lo) / (hi - lo)\<bar> \<le> 1 / 2 ^ 20"
        "\<bar>z - x\<bar> \<le> (\<bar>x\<bar> + (hi - lo)) / 2 ^ 21"
      by blast
    from r(1-4) have "normalize sc (Fin x) = Fin q"
      by (simp add: n f32_finite)
    moreover from r(1,2,5,6) have "denormalize sc (Fin q) = Fin z"
      by (simp add: d f32_finite)
    ultimately show ?thesis using r(7,8) by blast
  qed
  have tol: "close_to (1 / 10 ^ 6) (denormalize sc (normalize sc (Fin x))) (Fin x)"
    if "x \<in> set rs" and small: "\<bar>x\<bar> + (hi - lo) \<le> 2" for x
  proof -
    from trip [OF between [OF that(1)]] obtain q z where
      "normalize sc (Fin x) = Fin q" "denormalize sc (Fin q) = Fin z"
      and e: "\<bar>z - x\<bar> \<le> (\<bar>x\<bar> + (hi - lo)) / 2 ^ 21"
      by blast
    moreover from small have "(\<bar>x\<bar> + (hi - lo)) / 2 ^ 21 \<le> 2 / 2 ^ 21"
      by (simp add: divide_right_mono)
    moreover have "(2 :: real) / 2 ^ 21 \<le> 1 / 10 ^ 6" by simp
    ultimately show ?thesis by simp
  qed
  from round_trip_error [OF order_refl _ bounds] bounds(3) obtain d' where
    d': "to_float32 (hi - lo) = Fin d'" "0 < d'"
    by fastforce
  have n0: "normalize sc (Fin lo) = Fin 0"
    using d' by (simp add: n f32_finite to_float32_zero)
  have n1: "normalize sc (Fin hi) = Fin 1"
    using d' by (simp add: n f32_finite to_float32_one)
  have e2: "normalize (createScaler [Fin 2, Fin 4, Fin 6, Fin 8]) (Fin 4) =
      Fin (11184811 / 33554432)"
    by (simp only: example_scaler example_scaler_values)
  have e3: "close_to (1 / 1000) (normalize (createScaler [Fin 2, Fin 4, Fin 6, Fin 8]) (Fin 4))
      (Fin 0.333)"
    by (simp only: e2) simp
  have e4: "denormalize (createScaler [Fin 2, Fin 4, Fin 6, Fin 8]) (fround (Fin 0.333)) =
      Fin (4192207 / 1048576)"
    by (simp only: example_scaler example_scaler_values)
  have e5: "close_to (1 / 100)
      (denormalize (createScaler [Fin 2, Fin 4, Fin 6, Fin 8]) (fround (Fin 0.333))) (Fin 4.0)"
    by (simp only: e4) simp
  from sc n d ops trip between tol n0 n1 example_scaler e2 e3 e4 e5 show ?thesis
    unfolding sc_def lo_def hi_def by blast
qed

theorem createScaler_rounded_witness:
  "[2, 4, 6, 8 :: real] \<noteq> [] \<and> Min (set [2, 4, 6, 8 :: real]) < Max (set [2, 4, 6, 8 :: real])
   \<and> - (2 ^ 100) \<le> Min (set [2, 4, 6, 8 :: real]) \<and> Max (set [2, 4, 6, 8 :: real]) \<le> 2 ^ 100
   \<and> 1 / 2 ^ 100 \<le> Max (set [2, 4, 6, 8 :: real]) - Min (set [2, 4, 6, 8 :: real])
   \<and> createScaler (map Fin [2, 4, 6, 8]) = \<lparr>scaler_min = Fin 2, scaler_max = Fin 8\<rparr>
   \<and> normalize (createScaler (map Fin [2, 4, 6, 8])) (Fin 2) = Fin 0
   \<and> normalize (createScaler (map Fin [2, 4, 6, 8])) (Fin 8) = Fin 1
   \<and> normalize (createScaler (map Fin [2, 4, 6, 8])) (Fin 6) = Fin (11184811 / 16777216)
   \<and> denormalize (createScaler (map Fin [2, 4, 6, 8])) (Fin (11184811 / 16777216)) = Fin 6"
proof -
  have ne: "[2, 4, 6, 8 :: real] \<noteq> []" by simp
  have lo: "Min (set [2, 4, 6, 8 :: real]) = 2" and hi: "Max (set [2, 4, 6, 8 :: real]) = 8"
    by simp_all
  have lt: "Min (set [2, 4, 6, 8 :: real]) < Max (set [2, 4, 6, 8 :: real])"
    by simp
  have b1: "- (2 ^ 100) \<le> Min (set [2, 4, 6, 8 :: real])" by simp
  have b2: "Max (set [2, 4, 6, 8 :: real]) \<le> 2 ^ 100" by simp
  have b3: "1 / 2 ^ 100 \<le> Max (set [2, 4, 6, 8 :: real]) - Min (set [2, 4, 6, 8 :: real])"
    by simp
  note fitted = createScaler_rounded [OF ne lt b1 b2 b3]
  from fitted have a: "createScaler (map Fin [2, 4, 6, 8]) =
      \<lparr>scaler_min = Fin (Min (set [2, 4, 6, 8])), scaler_max = Fin (Max (set [2, 4, 6, 8]))\<rparr>"
    by blast
  from a lo hi have sc: "createScaler (map Fin [2, 4, 6, 8]) =
      \<lparr>scaler_min = Fin 2, scaler_max = Fin 8\<rparr>"
    by (simp only:)
  from fitted have "normalize (createScaler (map Fin [2, 4, 6, 8]))
      (Fin (Min (set [2, 4, 6, 8]))) = Fin 0"
    by blast
  then have n0: "normalize (createScaler (map Fin [2, 4, 6, 8])) (Fin 2) = Fin 0"
    by (simp only: lo)
  from fitted have "normalize (createScaler (map Fin [2, 4, 6, 8]))
      (Fin (Max (set [2, 4, 6, 8]))) = Fin 1"
    by blast
  then have n1: "normalize (createScaler (map Fin [2, 4, 6, 8])) (Fin 8) = Fin 1"
    by (simp only: hi)
  have n6: "normalize (createScaler (map Fin [2, 4, 6, 8])) (Fin 6) = Fin (11184811 / 16777216)"
    unfolding sc by (simp add: normalize_def f32_finite float_eval)
  have d6: "denormalize (createScaler (map Fin [2, 4, 6, 8])) (Fin (11184811 / 16777216)) = Fin 6"
    unfolding sc by (simp add: denormalize_def f32_finite float_eval)
  from ne lt b1 b2 b3 sc n0 n1 n6 d6 show ?thesis by blast
qed

text \<open>
  The claim as it was written fails: the tolerance \<open>1e-6\<close> is that of doubles. Fitted
  on \<open>[0, 18, 35]\<close>, three 32-bit floats, the scaler sends 18 to the float nearest to
  \<open>18 / 35\<close> and takes that back to \<open>18 + 2^-19\<close>, which is off by more than \<open>1e-6\<close>.
\<close>

theorem createScaler_round_trip_off:
  "createScaler (map Fin [0, 18, 35]) = \<lparr>scaler_min = Fin 0, scaler_max = Fin 35\<rparr>
   \<and> Min (set [0, 18, 35 :: real]) < Max (set [0, 18, 35 :: real])
   \<and> is_float32 0 \<and> is_float32 18 \<and> is_float32 35
   \<and> normalize (createScaler (map Fin [0, 18, 35])) (Fin 18) = Fin (8628283 / 16777216)
   \<and> denormalize (createScaler (map Fin [0, 18, 35]))
        (normalize (createScaler (map Fin [0, 18, 35])) (Fin 18)) = Fin (9437185 / 524288)
   \<and> \<not> close_to (1 / 10 ^ 6)
        (denormalize (createScaler (map Fin [0, 18, 35]))
          (normalize (createScaler (map Fin [0, 18, 35])) (Fin 18))) (Fin 18)"
proof -
  have sc: "createScaler (map Fin [0, 18, 35]) = \<lparr>scaler_min = Fin 0, scaler_max = Fin 35\<rparr>"
    using wide_scaler_values(1) by simp
  have lt: "Min (set [0, 18, 35 :: real]) < Max (set [0, 18, 35 :: real])" by simp
  have fl: "is_float32 0" "is_float32 18" "is_float32 35"
    by (simp_all only: is_float32_def wide_scaler_values)
  have n: "normalize (createScaler (map Fin [0, 18, 35])) (Fin 18) = Fin (8628283 / 16777216)"
    by (simp only: sc wide_scaler_values)
  have d: "denormalize (createScaler (map Fin [0, 18, 35]))
        (normalize (createScaler (map Fin [0, 18, 35])) (Fin 18)) = Fin (9437185 / 524288)"
    by (simp only: n) (simp only: sc wide_scaler_values)
  have off: "\<not> close_to (1 / 10 ^ 6)
        (denormalize (createScaler (map Fin [0, 18, 35]))
          (normalize (createScaler (map Fin [0, 18, 35])) (Fin 18))) (Fin 18)"
    by (simp only: d) simp
  from sc lt fl n d off show ?thesis by blast
qed

section \<open>Properties of the split\<close>

lemma splitData_run:
  assumes "sequences s = Some sq"
    and "js_mul (Fin (real (fst (shape (features sq))))) ratio = Fin p"
    and "0 \<le> p" and "p \<le> real (fst (shape (features sq)))"
  shows "splitData ratio s =
    (let n = nat \<lfloor>p\<rfloor>;
         fsc = createScaler (elements3 (slice_samples 0 n (features sq)));
         tsc = createScaler (take n (targets sq));
         tr = \<lparr>train_features = map_tensor3d (normalize fsc) (slice_samples 0 n (features sq)),
               train_targets = map (normalize tsc) (take n (targets sq))\<rparr>;
         te = \<lparr>test_features = map_tensor3d (normalize fsc)
                 (slice_samples n (fst (shape (features sq)) - n) (features sq)),
               test_targets = map (normalize tsc) (drop n (targets sq)),
               test_dates = drop n (dates sq),
               originalTargets = drop n (targets sq)\<rparr>
     in (Inr \<lparr>train = tr, test = te,
               featureCount = snd (snd (shape (features sq))),
               sequenceLength = fst (snd (shape (features sq)))\<rparr>,
         s\<lparr>featureScaler := Some fsc, targetScaler := Some tsc,
           trainData := Some tr, testData := Some te\<rparr>))"
proof -
  from assms(3) have a: "\<not> real_of_int \<lfloor>p\<rfloor> < 0" by simp
  from assms(4) have b: "\<not> real (fst (shape (features sq))) < real_of_int \<lfloor>p\<rfloor>"
    by linarith
  from assms(1,2) a b show ?thesis
    by (simp add: splitData_def Let_def)
qed

lemma train_size_bounds:
  assumes "0 < r" and "r < 1" and "N < 2 ^ 53"
  shows "\<exists>p. js_mul (Fin (real N)) (Fin r) = Fin p \<and> to_double (real N * r) = Fin p
           \<and> 0 \<le> p \<and> p \<le> real N"
proof -
  from assms(1) have "0 \<le> real N * r" by simp
  moreover from assms(2) have "real N * r \<le> real N" by (simp add: mult_left_le)
  ultimately obtain p where "to_double (real N * r) = Fin p" "0 \<le> p" "p \<le> real N"
    using to_double_within_count [OF _ _ assms(3)] by blast
  then show ?thesis by (simp add: js_mul_def)
qed

lemma createSequences_well_formed:
  assumes "fst (createSequences rt len s) = Inr sq"
  shows "fst (shape (features sq)) = length (targets sq)"
    and "length (values3 (features sq)) = length (targets sq)"
    and "length (dates sq) = length (targets sq)"
proof -
  from assms obtain aggregated tensor where
    made: "tensor3d_of (map (\<lambda>(w, t). map (featureVector rt) w)
             (sequence_samples len aggregated)) = Inr tensor"
    and sq: "sq = \<lparr>features = tensor,
        targets = tensor1d_of
          (map (\<lambda>(w, t). Fin (real (demand t))) (sequence_samples len aggregated)),
        dates = map (\<lambda>(w, t). (date t, region t)) (sequence_samples len aggregated),
        regions = unique (map region aggregated)\<rparr>"
    by (auto simp: createSequences_def Let_def split: option.splits if_splits sum.splits)
  from tensor3d_of_Inr(1,4) [OF made] sq
  show "fst (shape (features sq)) = length (targets sq)"
    and "length (values3 (features sq)) = length (targets sq)"
    and "length (dates sq) = length (targets sq)"
    by (simp_all add: tensor1d_of_def)
qed

lemma createScaler_finite:
  "rs \<noteq> [] \<Longrightarrow> createScaler (map Fin rs) =
     \<lparr>scaler_min = Fin (Min (set rs)), scaler_max = Fin (Max (set rs))\<rparr>"
  by (simp add: createScaler_def reduce_min_finite reduce_max_finite)

text \<open>
  Claim C2. Take a sequence set of \<open>N\<close> samples (as many feature windows as targets,
  and \<open>N\<close> as the first dimension of the feature tensor) and a train ratio strictly
  between 0 and 1. \<open>splitData\<close> succeeds; with \<open>n\<close> the floor of \<open>N\<close> times the ratio,
  the product being the double that the multiplication gives, the train set is the
  first \<open>n\<close> samples and the test set the remaining ones, in their order; the feature
  scaler holds the least and the greatest of all the elements of the train windows
  and the target scaler those of the train targets, and these two scalers, which the
  processor keeps, normalize both the train and the test set, every value \<open>x\<close> to
  \<open>(x - min) / (max - min)\<close> in 32-bit floats; the test set's original targets are the
  targets from \<open>n\<close> on, as they were. With 100 samples and ratio 0.8 the train set has
  80 samples, the test set 20, and the original targets are the targets from 80 on.
  The floor is that of the rounded product: 50 samples at 0.58 give 28 train samples,
  and 10 samples at 0.7 give 7.
\<close>

theorem splitData_slices:
  assumes "sequences s = Some sq"
    and "fst (shape (features sq)) = length (targets sq)"
    and "length (values3 (features sq)) = length (targets sq)"
    and "0 < r" and "r < 1"
    and "length (targets sq) < 2 ^ 53"
  shows "\<exists>res s' n p fsc tsc.
           splitData (Fin r) s = (Inr res, s')
           \<and> js_mul (Fin (real (length (targets sq)))) (Fin r) = Fin p
           \<and> to_double (real (length (targets sq)) * r) = Fin p
           \<and> int n = \<lfloor>p\<rfloor> \<and> n \<le> length (targets sq)
           \<and> scaler_min fsc = reduce_min (concat (concat (take n (values3 (features sq)))))
           \<and> scaler_max fsc = reduce_max (concat (concat (take n (values3 (features sq)))))
           \<and> scaler_min tsc = reduce_min (take n (targets sq))
           \<and> scaler_max tsc = reduce_max (take n (targets sq))
           \<and> (\<forall>rs. rs \<noteq> [] \<and> concat (concat (take n (values3 (features sq)))) = map Fin rs \<longrightarrow>
                fsc = \<lparr>scaler_min = Fin (Min (set rs)), scaler_max = Fin (Max (set rs))\<rparr>)
           \<and> (\<forall>rs. rs \<noteq> [] \<and> take n (targets sq) = map Fin rs \<longrightarrow>
                tsc = \<lparr>scaler_min = Fin (Min (set rs)), scaler_max = Fin (Max (set rs))\<rparr>)
           \<and> featureScaler s' = Some fsc \<and> targetScaler s' = Some tsc
           \<and> trainData s' = Some (train res) \<and> testData s' = Some (test res)
           \<and> values3 (train_features (train res)) =
               map (map (map (\<lambda>x. f32_div (f32_sub x (scaler_min fsc))
                 (f32_sub (scaler_max fsc) (scaler_min fsc)))))
                 (take n (values3 (features sq)))
           \<and> train_targets (train res) =
               map (\<lambda>x. f32_div (f32_sub x (scaler_min tsc))
                 (f32_sub (scaler_max tsc) (scaler_min tsc))) (take n (targets sq))
           \<and> values3 (test_features (test res)) =
               map (map (map (\<lambda>x. f32_div (f32_sub x (scaler_min fsc))
                 (f32_sub (scaler_max fsc) (scaler_min fsc)))))
                 (drop n (values3 (features sq)))
           \<and> test_targets (test res) =
               map (\<lambda>x. f32_div (f32_sub x (scaler_min tsc))
                 (f32_sub (scaler_max tsc) (scaler_min tsc))) (drop n (targets sq))
           \<and> test_dates (test res) = drop n (dates sq)
           \<and> originalTargets (test res) = drop n (targets sq)
           \<and> length (train_targets (train res)) = n
           \<and> length (train_targets (train res)) + length (test_targets (test res)) =
               length (targets sq)
           \<and> (length (targets sq) = 100 \<and> Fin r = to_double 0.8 \<longrightarrow>
                n = 80 \<and> length (originalTargets (test res)) = 20
                \<and> originalTargets (test res) = drop 80 (targets sq))
           \<and> (length (targets sq) = 50 \<and> Fin r = to_double 0.58 \<longrightarrow> n = 28)
           \<and> (length (targets sq) = 10 \<and> Fin r = to_double 0.7 \<longrightarrow> n = 7)"
proof -
  let ?N = "length (targets sq)"
  from train_size_bounds [OF assms(4,5,6)] obtain p where
    p: "js_mul (Fin (real ?N)) (Fin r) = Fin p" "to_double (real ?N * r) = Fin p"
      "0 \<le> p" "p \<le> real ?N"
    by blast
  let ?n = "nat \<lfloor>p\<rfloor>"
  let ?fsc = "createScaler (concat (concat (take ?n (values3 (features sq)))))"
  let ?tsc = "createScaler (take ?n (targets sq))"
  let ?tr = "\<lparr>train_features = map_tensor3d (normalize ?fsc) (slice_samples 0 ?n (features sq)),
               train_targets = map (normalize ?tsc) (take ?n (targets sq))\<rparr>"
  let ?te = "\<lparr>test_features = map_tensor3d (normalize ?fsc)
                 (slice_samples ?n (?N - ?n) (features sq)),
               test_targets = map (normalize ?tsc) (drop ?n (targets sq)),
               test_dates = drop ?n (dates sq),
               originalTargets = drop ?n (targets sq)\<rparr>"
  let ?res = "\<lparr>train = ?tr, test = ?te,
               featureCount = snd (snd (shape (features sq))),
               sequenceLength = fst (snd (shape (features sq)))\<rparr>"
  let ?s' = "s\<lparr>featureScaler := Some ?fsc, targetScaler := Some ?tsc,
           trainData := Some ?tr, testData := Some ?te\<rparr>"
  have n: "int ?n = \<lfloor>p\<rfloor>" using p(3) by simp
  from p(4) have "\<lfloor>p\<rfloor> \<le> \<lfloor>real ?N\<rfloor>" by (rule floor_mono)
  then have nN: "?n \<le> ?N" using n by simp
  have el: "elements3 (slice_samples 0 ?n (features sq)) =
      concat (concat (take ?n (values3 (features sq))))"
    by (simp add: elements3_def slice_samples_def)
  have run: "splitData (Fin r) s = (Inr ?res, ?s')"
    using splitData_run [OF assms(1), of "Fin r" p] p
    by (simp add: assms(2) Let_def el)
  have fmin: "scaler_min ?fsc = reduce_min (concat (concat (take ?n (values3 (features sq)))))"
    and fmax: "scaler_max ?fsc = reduce_max (concat (concat (take ?n (values3 (features sq)))))"
    and tmin: "scaler_min ?tsc = reduce_min (take ?n (targets sq))"
    and tmax: "scaler_max ?tsc = reduce_max (take ?n (targets sq))"
    by (simp_all add: createScaler_def)
  have ffin: "\<forall>rs. rs \<noteq> [] \<and> concat (concat (take ?n (values3 (features sq)))) = map Fin rs \<longrightarrow>
      ?fsc = \<lparr>scaler_min = Fin (Min (set rs)), scaler_max = Fin (Max (set rs))\<rparr>"
    by (simp add: createScaler_finite)
  have tfin: "\<forall>rs. rs \<noteq> [] \<and> take ?n (targets sq) = map Fin rs \<longrightarrow>
      ?tsc = \<lparr>scaler_min = Fin (Min (set rs)), scaler_max = Fin (Max (set rs))\<rparr>"
    by (simp add: createScaler_finite)
  have st: "featureScaler ?s' = Some ?fsc" "targetScaler ?s' = Some ?tsc"
    "trainData ?s' = Some (train ?res)" "testData ?s' = Some (test ?res)"
    by simp_all
  have norm: "normalize sc = (\<lambda>x. f32_div (f32_sub x (scaler_min sc))
      (f32_sub (scaler_max sc) (scaler_min sc)))" for sc
    by (rule ext) (simp add: normalize_def)
  have trv: "values3 (train_features (train ?res)) =
      map (map (map (\<lambda>x. f32_div (f32_sub x (scaler_min ?fsc))
        (f32_sub (scaler_max ?fsc) (scaler_min ?fsc))))) (take ?n (values3 (features sq)))"
    by (simp add: map_tensor3d_def slice_samples_def norm [symmetric])
  have trt: "train_targets (train ?res) =
      map (\<lambda>x. f32_div (f32_sub x (scaler_min ?tsc))
        (f32_sub (scaler_max ?tsc) (scaler_min ?tsc))) (take ?n (targets sq))"
    by (simp add: norm [symmetric])
  have tev: "values3 (test_features (test ?res)) =
      map (map (map (\<lambda>x. f32_div (f32_sub x (scaler_min ?fsc))
        (f32_sub (scaler_max ?fsc) (scaler_min ?fsc))))) (drop ?n (values3 (features sq)))"
    using assms(3) by (simp add: map_tensor3d_def slice_samples_def norm [symmetric])
  have tet: "test_targets (test ?res) =
      map (\<lambda>x. f32_div (f32_sub x (scaler_min ?tsc))
        (f32_sub (scaler_max ?tsc) (scaler_min ?tsc))) (drop ?n (targets sq))"
    "test_dates (test ?res) = drop ?n (dates sq)"
    by (simp_all add: norm [symmetric])
  have orig: "originalTargets (test ?res) = drop ?n (targets sq)" by simp
  have len1: "length (train_targets (train ?res)) = ?n" using nN by simp
  have len2: "length (train_targets (train ?res)) + length (test_targets (test ?res)) = ?N"
    using nN by simp
  have scenario: "?N = 100 \<and> Fin r = to_double 0.8 \<longrightarrow>
      ?n = 80 \<and> length (originalTargets (test ?res)) = 20
      \<and> originalTargets (test ?res) = drop 80 (targets sq)"
  proof
    assume given: "?N = 100 \<and> Fin r = to_double 0.8"
    have "to_double 0.8 = Fin (3602879701896397 / 4503599627370496)"
      by (simp add: float_eval)
    with given have r: "r = 3602879701896397 / 4503599627370496" by simp
    have "to_double (100 * (3602879701896397 / 4503599627370496)) = Fin 80"
      by (simp add: float_eval)
    with p(2) given r have "p = 80" by simp
    then have n80: "?n = 80" by simp
    have "length (originalTargets (test ?res)) = ?N - ?n" by simp
    with n80 given have l20: "length (originalTargets (test ?res)) = 20" by linarith
    from orig n80 have "originalTargets (test ?res) = drop 80 (targets sq)"
      by (simp only:)
    with n80 l20 show "?n = 80 \<and> length (originalTargets (test ?res)) = 20
      \<and> originalTargets (test ?res) = drop 80 (targets sq)"
      by blast
  qed
  have rounded: "?N = 50 \<and> Fin r = to_double 0.58 \<longrightarrow> ?n = 28"
  proof
    assume given: "?N = 50 \<and> Fin r = to_double 0.58"
    have "to_double 0.58 = Fin (5224175567749775 / 9007199254740992)"
      by (simp add: float_eval)
    with given have r: "r = 5224175567749775 / 9007199254740992" by simp
    have "to_double (50 * (5224175567749775 / 9007199254740992)) =
        Fin (8162774324609023 / 281474976710656)"
      by (simp add: float_eval)
    with p(2) given r have pv: "p = 8162774324609023 / 281474976710656" by simp
    have "nat \<lfloor>8162774324609023 / 281474976710656 :: real\<rfloor> = 28" by simp
    then show "?n = 28" unfolding pv .
  qed
  have rounded_up: "?N = 10 \<and> Fin r = to_double 0.7 \<longrightarrow> ?n = 7"
  proof
    assume given: "?N = 10 \<and> Fin r = to_double 0.7"
    have "to_double 0.7 = Fin (3152519739159347 / 4503599627370496)"
      by (simp add: float_eval)
    with given have r: "r = 3152519739159347 / 4503599627370496" by simp
    have "to_double (10 * (3152519739159347 / 4503599627370496)) = Fin 7"
      by (simp add: float_eval)
    with p(2) given r have pv: "p = 7" by simp
    show "?n = 7" unfolding pv by simp
  qed
  from run p(1,2) n nN fmin fmax tmin tmax ffin tfin st trv trt tev tet orig len1 len2 scenario
    rounded rounded_up
  show ?thesis by blast
qed

lemma example_hourly_shape:
  "fst (shape (features example_sequences_hourly)) = length (targets example_sequences_hourly)"
  "length (values3 (features example_sequences_hourly)) =
     length (targets example_sequences_hourly)"
  "targets example_sequences_hourly = [Fin 1, Fin 1]"
  "values3 (features example_sequences_hourly) =
     [[[Fin 1, Fin (13981013 / 16777216), Fin 0, Fin 2]],
      [[Fin 1, Fin (13981013 / 16777216), Fin 0, Fin 1]]]"
  "length (targets example_sequences_hourly) = 2"
  by (simp_all add: example_sequences_hourly_def)

lemma example_ratio: "to_double 0.8 = Fin (3602879701896397 / 4503599627370496)"
  by (simp add: float_eval)

lemma example_reduce:
  "reduce_min [Fin 1, Fin (13981013 / 16777216), Fin 0, Fin 2] = Fin 0"
  "reduce_max [Fin 1, Fin (13981013 / 16777216), Fin 0, Fin 2] = Fin 2"
  "reduce_min [Fin 1] = Fin 1" "reduce_max [Fin 1] = Fin 1"
  by simp_all

lemma example_normalized:
  "f32_div (f32_sub (Fin 1) (Fin 0)) (f32_sub (Fin 2) (Fin 0)) = Fin (1 / 2)"
  "f32_div (f32_sub (Fin (13981013 / 16777216)) (Fin 0)) (f32_sub (Fin 2) (Fin 0)) =
     Fin (13981013 / 33554432)"
  "f32_div (f32_sub (Fin 0) (Fin 0)) (f32_sub (Fin 2) (Fin 0)) = Fin 0"
  "f32_div (f32_sub (Fin 2) (Fin 0)) (f32_sub (Fin 2) (Fin 0)) = Fin 1"
  "f32_div (f32_sub (Fin 1) (Fin 1)) (f32_sub (Fin 1) (Fin 1)) = NaN"
  by (simp_all add: f32_sub_def f32_div_def num_sub_def float_eval)

theorem splitData_slices_witness:
  "sequences (new_processor\<lparr>sequences := Some example_sequences_hourly\<rparr>) =
     Some example_sequences_hourly
   \<and> fst (shape (features example_sequences_hourly)) = length (targets example_sequences_hourly)
   \<and> length (values3 (features example_sequences_hourly)) =
       length (targets example_sequences_hourly)
   \<and> (0::real) < 3602879701896397 / 4503599627370496
   \<and> (3602879701896397 / 4503599627370496 :: real) < 1
   \<and> length (targets example_sequences_hourly) < 2 ^ 53
   \<and> to_double 0.8 = Fin (3602879701896397 / 4503599627370496)
   \<and> (\<exists>res. fst (splitData (Fin (3602879701896397 / 4503599627370496))
         (new_processor\<lparr>sequences := Some example_sequences_hourly\<rparr>)) = Inr res
       \<and> length (train_targets (train res)) = 1
       \<and> values3 (train_features (train res)) =
           [[[Fin (1 / 2), Fin (13981013 / 33554432), Fin 0, Fin 1]]]
       \<and> values3 (test_features (test res)) =
           [[[Fin (1 / 2), Fin (13981013 / 33554432), Fin 0, Fin (1 / 2)]]]
       \<and> train_targets (train res) = [NaN]
       \<and> originalTargets (test res) = [Fin 1])"
proof -
  let ?s = "new_processor\<lparr>sequences := Some example_sequences_hourly\<rparr>"
  let ?r = "3602879701896397 / 4503599627370496 :: real"
  have given: "sequences ?s = Some example_sequences_hourly" by simp
  have lo: "0 < ?r" and hi: "?r < 1" by simp_all
  have count: "length (targets example_sequences_hourly) < 2 ^ 53"
    by (simp add: example_hourly_shape(5))
  from splitData_slices [OF given example_hourly_shape(1,2) lo hi count]
  obtain res s' n p and fsc tsc :: scaler
    where run: "splitData (Fin ?r) ?s = (Inr res, s')"
    and p: "to_double (real (length (targets example_sequences_hourly)) * ?r) = Fin p"
    and n: "int n = \<lfloor>p\<rfloor>"
    and fsc: "scaler_min fsc =
        reduce_min (concat (concat (take n (values3 (features example_sequences_hourly)))))"
      "scaler_max fsc =
        reduce_max (concat (concat (take n (values3 (features example_sequences_hourly)))))"
    and tsc: "scaler_min tsc = reduce_min (take n (targets example_sequences_hourly))"
      "scaler_max tsc = reduce_max (take n (targets example_sequences_hourly))"
    and trv: "values3 (train_features (train res)) =
        map (map (map (\<lambda>x. f32_div (f32_sub x (scaler_min fsc))
          (f32_sub (scaler_max fsc) (scaler_min fsc)))))
          (take n (values3 (features example_sequences_hourly)))"
    and trt: "train_targets (train res) =
        map (\<lambda>x. f32_div (f32_sub x (scaler_min tsc))
          (f32_sub (scaler_max tsc) (scaler_min tsc))) (take n (targets example_sequences_hourly))"
    and tev: "values3 (test_features (test res)) =
        map (map (map (\<lambda>x. f32_div (f32_sub x (scaler_min fsc))
          (f32_sub (scaler_max fsc) (scaler_min fsc)))))
          (drop n (values3 (features example_sequences_hourly)))"
    and orig: "originalTargets (test res) = drop n (targets example_sequences_hourly)"
    and len: "length (train_targets (train res)) = n"
    by blast
  have prod: "real (length (targets example_sequences_hourly)) * ?r =
      3602879701896397 / 2251799813685248"
    by (simp add: example_hourly_shape(5))
  from p have "Fin p = to_double (3602879701896397 / 2251799813685248)"
    unfolding prod by (rule sym)
  also have "\<dots> = Fin (3602879701896397 / 2251799813685248)"
    by (simp add: float_eval)
  finally have pv: "p = 3602879701896397 / 2251799813685248"
    by (simp only: jsnum.inject)
  have "\<lfloor>3602879701896397 / 2251799813685248 :: real\<rfloor> = 1" by simp
  with n have "int n = 1" unfolding pv by (simp only:)
  then have n1: "n = Suc 0" by simp
  from fsc have f: "scaler_min fsc = Fin 0" "scaler_max fsc = Fin 2"
    unfolding n1 example_hourly_shape(4)
    by (simp_all add: example_reduce del: reduce_min.simps reduce_max.simps)
  from tsc have t: "scaler_min tsc = Fin 1" "scaler_max tsc = Fin 1"
    unfolding n1 example_hourly_shape(3) by simp_all
  from trv have v1: "values3 (train_features (train res)) =
      [[[Fin (1 / 2), Fin (13981013 / 33554432), Fin 0, Fin 1]]]"
    unfolding n1 f example_hourly_shape(4) by (simp add: example_normalized)
  from tev have v2: "values3 (test_features (test res)) =
      [[[Fin (1 / 2), Fin (13981013 / 33554432), Fin 0, Fin (1 / 2)]]]"
    unfolding n1 f example_hourly_shape(4) by (simp add: example_normalized)
  from trt have v3: "train_targets (train res) = [NaN]"
    unfolding n1 t example_hourly_shape(3) by (simp add: example_normalized)
  from orig len n1 have "length (train_targets (train res)) = 1"
    "originalTargets (test res) = [Fin 1]"
    by (simp_all add: example_hourly_shape(3))
  with run v1 v2 v3 have "\<exists>res. fst (splitData (Fin ?r) ?s) = Inr res
       \<and> length (train_targets (train res)) = 1
       \<and> values3 (train_features (train res)) =
           [[[Fin (1 / 2), Fin (13981013 / 33554432), Fin 0, Fin 1]]]
       \<and> values3 (test_features (test res)) =
           [[[Fin (1 / 2), Fin (13981013 / 33554432), Fin 0, Fin (1 / 2)]]]
       \<and> train_targets (train res) = [NaN]
       \<and> originalTargets (test res) = [Fin 1]"
    by (metis fst_conv)
  with given example_hourly_shape(1,2) lo hi count example_ratio show ?thesis by blast
qed

section \<open>Future windows and their labels\<close>

lemma example_rows_valid:
  "isValid example_runtime row_friday_morning"
  "isValid example_runtime row_friday_evening"
  "isValid example_runtime row_saturday"
  by (simp_all add: isValid_def isNaN_def row_friday_morning_def row_friday_evening_def
      row_saturday_def float_eval)

lemma example_rows_processed:
  "List.map_filter (process_trip example_runtime (to_double 0.05))
     [row_friday_morning, row_friday_evening, row_saturday] = example_trips"
  using example_process by (simp add: processRawData_def Let_def)

lemma example_trips_grouped:
  "sort_by_date (map snd (foldl (add_trip example_runtime ''hourly'') [] example_trips)) =
     [bucket_friday_10, bucket_friday_17, bucket_saturday]"
  using example_aggregate_hourly by (simp add: aggregateData_def Let_def)

lemma example_hourly_sequences:
  assumes "aggregatedData s = Some [bucket_friday_10, bucket_friday_17, bucket_saturday]"
  shows "createSequences example_runtime 1 s =
    (Inr example_sequences_hourly, s\<lparr>sequences := Some example_sequences_hourly\<rparr>)"
proof -
  have fv: "featureVector example_runtime bucket_friday_10 =
      [Fin 1, Fin (7505999378950827 / 9007199254740992), Fin 0, Fin 2]"
    "featureVector example_runtime bucket_friday_17 =
      [Fin 1, Fin (7505999378950827 / 9007199254740992), Fin 0, Fin 1]"
    by (simp_all add: featureVector_def bucket_friday_10_def bucket_friday_17_def js_div_def
        float_eval)
  have tgt: "demand bucket_saturday = 1" "date bucket_saturday = 16501"
    "demand bucket_friday_17 = 1" "date bucket_friday_17 = 16500"
    by (simp_all add: bucket_saturday_def bucket_friday_17_def)
  show ?thesis
    unfolding createSequences_def
    by (simp add: assms Let_def example_samples_hourly tensor3d_of_def tensor1d_of_def fv tgt
        fround_def float_eval example_sequences_hourly_def example_region unique_def)
qed

lemma example_hourly_split:
  assumes "sequences s = Some example_sequences_hourly"
  shows "featureScaler (snd (splitData (to_double 0.8) s)) =
           Some \<lparr>scaler_min = Fin 0, scaler_max = Fin 2\<rparr>
       \<and> aggregatedData (snd (splitData (to_double 0.8) s)) = aggregatedData s
       \<and> sequences (snd (splitData (to_double 0.8) s)) = sequences s"
proof -
  have sh: "fst (shape (features example_sequences_hourly)) = 2"
    by (simp add: example_sequences_hourly_def)
  have prod: "js_mul (Fin (real (fst (shape (features example_sequences_hourly)))))
      (to_double 0.8) = Fin (3602879701896397 / 2251799813685248)"
    unfolding sh by (simp add: js_mul_def float_eval)
  have bounds: "(0::real) \<le> 3602879701896397 / 2251799813685248"
    "3602879701896397 / 2251799813685248 \<le> real (fst (shape (features example_sequences_hourly)))"
    unfolding sh by simp_all
  have n: "nat \<lfloor>3602879701896397 / 2251799813685248 :: real\<rfloor> = Suc 0" by simp
  have sc: "createScaler (elements3 (slice_samples 0 (Suc 0) (features example_sequences_hourly))) =
      \<lparr>scaler_min = Fin 0, scaler_max = Fin 2\<rparr>"
    by (simp add: createScaler_def elements3_def slice_samples_def example_sequences_hourly_def)
  show ?thesis
    unfolding splitData_run [OF assms prod bounds] n by (simp add: Let_def sc)
qed

lemma example_state_fields:
  "aggregatedData example_state = Some [bucket_friday_10, bucket_friday_17, bucket_saturday]"
  "sequences example_state = Some example_sequences_hourly"
  "featureScaler example_state = Some \<lparr>scaler_min = Fin 0, scaler_max = Fin 2\<rparr>"
proof -
  let ?rows = "[row_friday_morning, row_friday_evening, row_saturday]"
  let ?s1 = "snd (loadRawCSV example_runtime (Complete ?rows) new_processor)"
  let ?s2 = "snd (processRawData example_runtime ''hourly'' (to_double 0.05) ?s1)"
  let ?s3 = "snd (aggregateData example_runtime ''hourly'' ?s2)"
  let ?s4 = "snd (createSequences example_runtime 1 ?s3)"
  have 1: "rawData ?s1 = Some ?rows"
    by (simp add: loadRawCSV_complete example_rows_valid)
  have "processRawData example_runtime ''hourly'' (to_double 0.05) ?s1 =
      (Inr example_trips, ?s1\<lparr>processedData := Some example_trips\<rparr>)"
    using processRawData_rows [OF 1, of example_runtime "''hourly''" "to_double 0.05"]
    unfolding example_rows_processed by simp
  then have 2: "processedData ?s2 = Some example_trips" by simp
  have 3: "aggregatedData ?s3 = Some [bucket_friday_10, bucket_friday_17, bucket_saturday]"
    using aggregateData_run [OF 2, of example_runtime "''hourly''"]
    by (simp add: example_trips_grouped)
  have 4: "aggregatedData ?s4 = Some [bucket_friday_10, bucket_friday_17, bucket_saturday]"
    "sequences ?s4 = Some example_sequences_hourly"
    using example_hourly_sequences [OF 3] 3 by simp_all
  from example_hourly_split [OF 4(2)] 4
  show "aggregatedData example_state = Some [bucket_friday_10, bucket_friday_17, bucket_saturday]"
    "sequences example_state = Some example_sequences_hourly"
    "featureScaler example_state = Some \<lparr>scaler_min = Fin 0, scaler_max = Fin 2\<rparr>"
    unfolding example_state_def by simp_all
qed

lemma for_each_region_all:
  assumes "\<forall>r \<in> set rs. f r = Inr (g r)"
  shows "for_each_region f rs = Inr (map (\<lambda>r. the (g r)) (filter (\<lambda>r. g r \<noteq> None) rs))"
  using assms by (induction rs) (auto split: option.splits)

lemma those_all_Some: "those (map (\<lambda>x. Some (h x)) xs) = Some (map h xs)"
  by (induction xs) auto

lemma those_map_Some:
  assumes "\<forall>x \<in> set xs. f x = Some (h x)"
  shows "those (map f xs) = Some (map h xs)"
proof -
  from assms have "map f xs = map (\<lambda>x. Some (h x)) xs" by simp
  then show ?thesis by (simp only: those_all_Some)
qed

lemma future_region_eligible:
  assumes "0 < len" and "len \<le> length (regionData_of aggregated r)"
    and "\<forall>i \<in> set [1..<daysToPredict + 1]. future_date rt lastDay i = Some (label i)"
  shows "future_region rt aggregated len daysToPredict lastDay r =
    Inr (Some (map (featureVector rt)
                 (drop (length (regionData_of aggregated r) - len) (regionData_of aggregated r)),
               map (\<lambda>i. (label i, r)) [1..<daysToPredict + 1]))"
  using assms(1,2) those_map_Some [OF assms(3)]
  by (simp add: future_region_def Let_def comp_def)

lemma future_region_skipped:
  assumes "length (regionData_of aggregated r) < len"
  shows "future_region rt aggregated len daysToPredict lastDay r = Inr None"
  using assms by (simp add: future_region_def Let_def)

lemma tensor3d_of_rectangular:
  assumes "vs \<noteq> []" and "0 < len" and "0 < width"
    and "\<forall>w \<in> set vs. length w = len \<and> (\<forall>v \<in> set w. length v = width)"
  shows "tensor3d_of vs =
    Inr \<lparr>shape = (length vs, len, width), values3 = map (map (map fround)) vs\<rparr>"
proof -
  from assms(1) obtain w ws where vs: "vs = w # ws" by (cases vs) auto
  with assms(4) have lw: "length w = len" and vw: "\<forall>v \<in> set w. length v = width" by auto
  with assms(2) obtain v w' where w: "w = v # w'" by (cases w) auto
  with vw have lv: "length v = width" by simp
  have "list_all (\<lambda>w'. length w' = length w \<and> list_all (\<lambda>v'. length v' = length v) w') vs"
    using assms(4) lw lv by (auto simp: list_all_iff)
  then show ?thesis using lw lv by (simp add: tensor3d_of_def vs w)
qed

text \<open>
  What \<open>generateFutureSequence\<close> returns in general, once the scaler is fitted and as
  long as the labels stay within the range of dates: one window for every region of
  the sequence set that has at least \<open>sequenceLength\<close> buckets, made of the feature
  vectors of its most recent \<open>sequenceLength\<close> buckets, stored as 32-bit floats and
  normalized with the fitted feature scaler, and for each such region \<open>daysToPredict\<close>
  labels; the error when no region has enough buckets.
\<close>

lemma generateFutureSequence_windows:
  assumes "aggregatedData s = Some aggregated" and "aggregated \<noteq> []"
    and "sequences s = Some sq" and "featureScaler s = Some fsc"
    and "fst (snd (shape (features sq))) = len" and "0 < len"
    and "\<forall>i \<in> set [1..<daysToPredict + 1].
           future_date rt (date (last aggregated)) i = Some (label i)"
    and "eligible = filter (\<lambda>r. len \<le> length (regionData_of aggregated r)) (regions sq)"
  shows "generateFutureSequence rt daysToPredict s =
    (if eligible = [] then Inl (Error ''Could not generate future sequences'')
     else Inr \<lparr>future_features =
                 \<lparr>shape = (length eligible, len, 4),
                  values3 = map (\<lambda>r. map (map (\<lambda>x. normalize fsc (fround x)))
                    (map (featureVector rt)
                      (drop (length (regionData_of aggregated r) - len)
                        (regionData_of aggregated r)))) eligible\<rparr>,
               future_dates =
                 concat (map (\<lambda>r. map (\<lambda>i. (label i, r)) [1..<daysToPredict + 1]) eligible)\<rparr>)"
proof -
  let ?lastDay = "date (last aggregated)"
  let ?window = "\<lambda>r. map (featureVector rt)
      (drop (length (regionData_of aggregated r) - len) (regionData_of aggregated r))"
  let ?labels = "\<lambda>r. map (\<lambda>i. (label i, r)) [1..<daysToPredict + 1]"
  let ?g = "\<lambda>r. if length (regionData_of aggregated r) < len then None
      else Some (?window r, ?labels r)"
  have each: "\<forall>r \<in> set (regions sq).
      future_region rt aggregated len daysToPredict ?lastDay r = Inr (?g r)"
    using future_region_eligible [OF assms(6) _ assms(7)] future_region_skipped
    by (simp add: not_less)
  have keep: "filter (\<lambda>r. ?g r \<noteq> None) (regions sq) = eligible"
    unfolding assms(8) by (rule filter_cong) (auto simp: not_less)
  have found: "for_each_region (future_region rt aggregated len daysToPredict ?lastDay)
      (regions sq) = Inr (map (\<lambda>r. (?window r, ?labels r)) eligible)"
  proof -
    have "map (\<lambda>r. the (?g r)) eligible = map (\<lambda>r. (?window r, ?labels r)) eligible"
      unfolding assms(8) by (rule map_cong) (auto simp: not_less)
    with for_each_region_all [OF each] keep show ?thesis by simp
  qed
  show ?thesis
  proof (cases "eligible = []")
    case True
    with assms(1-5) found show ?thesis
      by (simp add: generateFutureSequence_def Let_def)
  next
    case False
    have rect: "\<forall>w \<in> set (map ?window eligible).
        length w = len \<and> (\<forall>v \<in> set w. length v = 4)"
      unfolding assms(8) by (auto simp: featureVector_def)
    from False have ne: "map ?window eligible \<noteq> []" by simp
    have "tensor3d_of (map ?window eligible) =
        Inr \<lparr>shape = (length (map ?window eligible), len, 4),
              values3 = map (map (map fround)) (map ?window eligible)\<rparr>"
      using ne assms(6) _ rect by (rule tensor3d_of_rectangular) simp
    with False assms(1-5) found show ?thesis
      by (simp add: generateFutureSequence_def Let_def comp_def map_tensor3d_def)
  qed
qed

lemma future_date_fixed_offset:
  assumes "tza_of_local rt (local_time rt (lastDay * msPerDay) + int i * msPerDay) =
      tza_of_utc rt (lastDay * msPerDay)"
    and "\<bar>(lastDay + int i) * msPerDay\<bar> \<le> maxTime"
  shows "future_date rt lastDay i = Some (lastDay + int i)"
proof -
  let ?moved = "local_time rt (lastDay * msPerDay) + int i * msPerDay"
  have "?moved - tza_of_local rt ?moved = ?moved - tza_of_utc rt (lastDay * msPerDay)"
    by (simp only: assms(1))
  also have "\<dots> = (lastDay + int i) * msPerDay"
    by (simp add: local_time_def algebra_simps)
  finally have "?moved - tza_of_local rt ?moved = (lastDay + int i) * msPerDay" .
  moreover have "utc_day ((lastDay + int i) * msPerDay) = lastDay + int i"
    by (simp add: utc_day_def msPerDay_def)
  ultimately show ?thesis
    using assms(2) by (simp add: future_date_def Let_def)
qed

lemma example_future_dates:
  "future_date example_runtime 16501 (Suc 0) = Some 16502"
  "future_date example_runtime 16501 2 = Some 16502"
  by (simp_all add: future_date_def Let_def local_time_def utc_day_def msPerDay_def maxTime_def
      example_runtime_def)

lemma example_future_region:
  "future_region example_runtime [bucket_friday_10, bucket_friday_17, bucket_saturday] (Suc 0) 2
     16501 ''region_-1480_815'' =
   Inr (Some ([[Fin 1, Fin 1, Fin 1, Fin 1]],
     [(16502, ''region_-1480_815''), (16502, ''region_-1480_815'')]))"
proof -
  have days: "[1..<2 + 1] = [Suc 0, 2]" by (simp add: upt_rec)
  have fv: "featureVector example_runtime bucket_saturday = [Fin 1, Fin 1, Fin 1, Fin 1]"
    by (simp add: featureVector_def bucket_saturday_def js_div_def float_eval)
  show ?thesis
    unfolding future_region_def example_regionData_hourly days
    by (simp add: Let_def example_future_dates fv)
qed

text \<open>
  Claim C8 asks for the labels of a region to be dated one to \<open>daysToPredict\<close> days
  after the last observed date. The code steps the date in local time and reads it
  back in UTC: in the zone of New York, with 7 March 2015 (day 16501) as the last
  observed date and two days to predict, the processor that the pipeline leaves gets
  one window for its region, the last bucket of the region normalized with the fitted
  feature scaler, and two labels that are both dated 8 March 2015 (day 16502).
\<close>

theorem generateFutureSequence_repeats_date:
  "aggregatedData example_state = Some [bucket_friday_10, bucket_friday_17, bucket_saturday]
   \<and> date (last [bucket_friday_10, bucket_friday_17, bucket_saturday]) = 16501
   \<and> generateFutureSequence example_runtime 2 example_state =
       Inr \<lparr>future_features =
              \<lparr>shape = (1, 1, 4), values3 = [[[Fin (1 / 2), Fin (1 / 2), Fin (1 / 2), Fin (1 / 2)]]]\<rparr>,
            future_dates = [(16502, ''region_-1480_815''), (16502, ''region_-1480_815'')]\<rparr>"
proof -
  have sat_day: "date bucket_saturday = 16501"
    by (simp add: bucket_saturday_def)
  then have last_day: "date (last [bucket_friday_10, bucket_friday_17, bucket_saturday]) = 16501"
    by simp
  have len: "fst (snd (shape (features example_sequences_hourly))) = 1"
    and rs: "regions example_sequences_hourly = [''region_-1480_815'']"
    by (simp_all add: example_sequences_hourly_def)
  have run: "generateFutureSequence example_runtime 2 example_state =
       Inr \<lparr>future_features =
              \<lparr>shape = (1, 1, 4), values3 = [[[Fin (1 / 2), Fin (1 / 2), Fin (1 / 2), Fin (1 / 2)]]]\<rparr>,
            future_dates = [(16502, ''region_-1480_815''), (16502, ''region_-1480_815'')]\<rparr>"
    unfolding generateFutureSequence_def example_state_fields
    by (simp add: Let_def sat_day len rs example_future_region tensor3d_of_def map_tensor3d_def
        normalize_def fround_def f32_div_def f32_sub_def num_sub_def float_eval)
  from example_state_fields(1) last_day run show ?thesis by blast
qed

end
